theory Spec2Isabelle
  imports Main "HOL-Library.AList"
begin

section \<open>The listener table: class Events\<close>

text \<open>
  The model follows \<^verbatim>\<open>src/app/script/events_class.cpp\<close>.

  \<^verbatim>\<open>using EventListener = int;\<close> and \<^verbatim>\<open>using EventType = int;\<close>: a listener is the
  reference that \<^verbatim>\<open>luaL_ref\<close> returned for the callback, an event type is an index into
  \<^verbatim>\<open>m_listeners\<close>, a \<^verbatim>\<open>std::vector<std::vector<EventListener>>\<close>.
\<close>

type_synonym EventListener = int
type_synonym EventType = int
type_synonym EventListeners = "EventListener list"
type_synonym listeners_table = "EventListeners list"

text \<open>
  What the C++ standard leaves undefined is a value of \<open>error\<close> in the model:
  \<^item> \<open>OutOfRange\<close>: \<^verbatim>\<open>m_listeners[eventType]\<close> with an index outside the vector;
  \<^item> \<open>SignedOverflow\<close>: \<^verbatim>\<open>eventType+1\<close> on an \<^verbatim>\<open>int\<close> that holds \<^verbatim>\<open>INT_MAX\<close>;
  \<^item> \<open>NullDereference\<close>: a member call through a null \<^verbatim>\<open>Doc*\<close>;
  \<^item> \<open>InvalidIterator\<close>: an iterator of a \<^verbatim>\<open>std::vector\<close> used after an
    \<^verbatim>\<open>erase\<close> or \<^verbatim>\<open>push_back\<close> on that vector invalidated it.
  An error that \<^verbatim>\<open>luaL_error\<close> raises to the calling script is not of this kind; it is a
  result of its own, \<open>Raise\<close> below, and keeps the state.
\<close>

datatype error =
    OutOfRange
  | SignedOverflow
  | NullDereference
  | InvalidIterator

text \<open>
  The two pure virtual functions of \<open>Events\<close>. \<^verbatim>\<open>m_listeners\<close> is private, so an
  override sees only the rest of the program state, of type \<open>'w\<close>: the fields of the
  derived class and the objects it subscribes to.
\<close>

record 'w hooks =
  onAddFirstListener :: "EventType \<Rightarrow> 'w \<Rightarrow> error + 'w"
  onRemoveLastListener :: "EventType \<Rightarrow> 'w \<Rightarrow> error + 'w"

subsection \<open>hasListener\<close>

text \<open>The inner and the outer \<^verbatim>\<open>for\<close> loop, each returning at the first match.\<close>

primrec contains_listener :: "EventListeners \<Rightarrow> EventListener \<Rightarrow> bool" where
  "contains_listener [] callbackRef = False"
| "contains_listener (listener # rest) callbackRef =
     (if listener = callbackRef then True else contains_listener rest callbackRef)"

primrec Events_hasListener :: "listeners_table \<Rightarrow> EventListener \<Rightarrow> bool" where
  "Events_hasListener [] callbackRef = False"
| "Events_hasListener (listeners # rest) callbackRef =
     (if contains_listener listeners callbackRef then True
      else Events_hasListener rest callbackRef)"

subsection \<open>add\<close>

text \<open>\<^verbatim>\<open>std::vector::resize\<close>: cut, or fill up with empty lists.\<close>

definition resize :: "listeners_table \<Rightarrow> nat \<Rightarrow> listeners_table" where
  "resize m n = take n m @ replicate (n - length m) []"

text \<open>
  \<^verbatim>\<open>eventType >= m_listeners.size()\<close> compares an \<^verbatim>\<open>int\<close> with a \<^verbatim>\<open>size_t\<close>: a negative
  \<open>eventType\<close> is converted to a huge unsigned number, the table is resized to
  \<open>eventType + 1\<close> (to nothing for \<open>-1\<close>) and \<^verbatim>\<open>m_listeners[eventType]\<close> is then outside
  the vector. The model gives \<open>OutOfRange\<close> for every negative event type; the only caller,
  \<open>Events_on\<close>, rejects them beforehand.

  \<open>EventType\<close> is a 32-bit \<^verbatim>\<open>int\<close>, and \<^verbatim>\<open>m_listeners.resize(eventType+1)\<close> adds in that
  type: when the table has to grow for \<open>eventType = INT_MAX\<close> the sum overflows, which is
  undefined. The model gives \<open>SignedOverflow\<close> there (an \<^verbatim>\<open>int\<close> holds no larger value).
  The hook runs after the \<^verbatim>\<open>push_back\<close>.
\<close>

definition INT_MAX :: int where
  "INT_MAX = 2 ^ 31 - 1"

definition Events_add ::
  "'w hooks \<Rightarrow> EventType \<Rightarrow> EventListener \<Rightarrow> listeners_table \<times> 'w
     \<Rightarrow> error + listeners_table \<times> 'w" where
  "Events_add hk eventType callbackRef s =
     (case s of (m, w) \<Rightarrow>
        if eventType < 0 then Inl OutOfRange
        else if nat eventType \<ge> length m \<and> eventType \<ge> INT_MAX then Inl SignedOverflow
        else
          let m1 = (if nat eventType \<ge> length m then resize m (nat eventType + 1) else m);
              listeners = (m1 ! nat eventType) @ [callbackRef];
              m2 = m1[nat eventType := listeners]
          in if length listeners = 1
             then (case onAddFirstListener hk eventType w of
                     Inl err \<Rightarrow> Inl err
                   | Inr w' \<Rightarrow> Inr (m2, w'))
             else Inr (m2, w))"

subsection \<open>remove\<close>

text \<open>
  The inner loop of \<open>remove\<close>. The iterator \<open>it\<close> splits the vector into the elements
  before it (\<open>kept\<close>) and those from it on (\<open>rest\<close>); \<^verbatim>\<open>listeners.erase(it)\<close> drops the element under the
  iterator, \<^verbatim>\<open>++it\<close> steps over it.
\<close>

fun erase_loop ::
  "EventListener \<Rightarrow> EventListeners \<Rightarrow> EventListeners \<Rightarrow> bool \<Rightarrow> EventListeners \<times> bool" where
  "erase_loop callbackRef kept [] removed = (kept, removed)"
| "erase_loop callbackRef kept (x # rest) removed =
     (if x = callbackRef then erase_loop callbackRef kept rest True
      else erase_loop callbackRef (kept @ [x]) rest removed)"

text \<open>The outer loop, \<^verbatim>\<open>for (int i=0; i<int(m_listeners.size()); ++i)\<close>.\<close>

function remove_loop ::
  "'w hooks \<Rightarrow> EventListener \<Rightarrow> nat \<Rightarrow> listeners_table \<times> 'w \<Rightarrow> error + listeners_table \<times> 'w" where
  "remove_loop hk callbackRef i (m, w) =
     (if i < length m then
        (case erase_loop callbackRef [] (m ! i) False of
           (listeners, removed) \<Rightarrow>
             if removed \<and> listeners = [] then
               (case onRemoveLastListener hk (int i) w of
                  Inl err \<Rightarrow> Inl err
                | Inr w' \<Rightarrow> remove_loop hk callbackRef (i + 1) (m[i := listeners], w'))
             else remove_loop hk callbackRef (i + 1) (m[i := listeners], w))
      else Inr (m, w))"
  by pat_completeness auto
termination
  by (relation "measure (\<lambda>(hk, callbackRef, i, m, w). length m - i)") auto

declare remove_loop.simps [simp del]

definition Events_remove ::
  "'w hooks \<Rightarrow> EventListener \<Rightarrow> listeners_table \<times> 'w \<Rightarrow> error + listeners_table \<times> 'w" where
  "Events_remove hk callbackRef s = remove_loop hk callbackRef 0 s"

subsection \<open>Hooks that only record their calls\<close>

text \<open>
  To count hook calls, the hooks are instantiated with a pair that appends the call to a
  trace and does nothing else.
\<close>

datatype hook_call = AddFirst EventType | RemoveLast EventType

definition trace_hooks :: "hook_call list hooks" where
  "trace_hooks =
     \<lparr> onAddFirstListener = (\<lambda>e tr. Inr (tr @ [AddFirst e])),
       onRemoveLastListener = (\<lambda>e tr. Inr (tr @ [RemoveLast e])) \<rparr>"

text \<open>The list of an event type; an event type the table has no slot for has no listener.\<close>

definition listeners_of :: "listeners_table \<Rightarrow> EventType \<Rightarrow> EventListeners" where
  "listeners_of m e = (if 0 \<le> e \<and> nat e < length m then m ! nat e else [])"

text \<open>A sequence of \<open>add\<close> and \<open>remove\<close> calls on one table.\<close>

datatype table_op = Add EventType EventListener | Remove EventListener

fun step :: "'w hooks \<Rightarrow> table_op \<Rightarrow> listeners_table \<times> 'w \<Rightarrow> error + listeners_table \<times> 'w" where
  "step hk (Add e c) s = Events_add hk e c s"
| "step hk (Remove c) s = Events_remove hk c s"

fun run :: "'w hooks \<Rightarrow> table_op list \<Rightarrow> listeners_table \<times> 'w \<Rightarrow> error + listeners_table \<times> 'w" where
  "run hk [] s = Inr s"
| "run hk (x # xs) s = (case step hk x s of Inl err \<Rightarrow> Inl err | Inr s' \<Rightarrow> run hk xs s')"

text \<open>The tables a run goes through: the starting one, then the one after each operation.\<close>

fun visited :: "'w hooks \<Rightarrow> table_op list \<Rightarrow> listeners_table \<times> 'w \<Rightarrow> listeners_table list" where
  "visited hk [] s = [fst s]"
| "visited hk (x # xs) s =
     fst s # (case step hk x s of Inl err \<Rightarrow> [] | Inr s' \<Rightarrow> visited hk xs s')"

text \<open>
  How often the list of event type \<open>e\<close> goes from empty to non-empty, and from non-empty
  to empty, between two successive tables of a sequence.
\<close>

definition became_nonempty :: "EventType \<Rightarrow> listeners_table \<Rightarrow> listeners_table \<Rightarrow> nat" where
  "became_nonempty e m m' = (if listeners_of m e = [] \<and> listeners_of m' e \<noteq> [] then 1 else 0)"

definition became_empty :: "EventType \<Rightarrow> listeners_table \<Rightarrow> listeners_table \<Rightarrow> nat" where
  "became_empty e m m' = (if listeners_of m e \<noteq> [] \<and> listeners_of m' e = [] then 1 else 0)"

fun transitions ::
  "(listeners_table \<Rightarrow> listeners_table \<Rightarrow> nat) \<Rightarrow> listeners_table list \<Rightarrow> nat" where
  "transitions f (m # m' # rest) = f m m' + transitions f (m' # rest)"
| "transitions f [m] = 0"
| "transitions f [] = 0"

text \<open>
  The hook calls of one \<open>remove\<close>, written as a function of the table before the call:
  one call for each list, from index \<open>i\<close> on, that held the handle and nothing else.
\<close>

fun fired_from :: "EventListener \<Rightarrow> nat \<Rightarrow> listeners_table \<Rightarrow> hook_call list" where
  "fired_from c i [] = []"
| "fired_from c i (l # ls) =
     (if c \<in> set l \<and> removeAll c l = [] then [RemoveLast (int i)] else [])
       @ fired_from c (Suc i) ls"

text \<open>
  \<open>Events_on\<close> passes only event types that are not negative to \<open>add\<close>, and the event
  types of the two event sources are 0, 1 and 2, far below \<^verbatim>\<open>INT_MAX\<close>; a run is
  well-formed when the event types of its \<open>add\<close> calls are not negative and below
  \<^verbatim>\<open>INT_MAX\<close> (\<open>list_all well_formed_op\<close>).
\<close>

fun well_formed_op :: "table_op \<Rightarrow> bool" where
  "well_formed_op (Add e c) = (0 \<le> e \<and> e < INT_MAX)"
| "well_formed_op (Remove c) = True"

text \<open>The table after \<open>add\<close>, written as a function of the table before the call.\<close>

definition table_add :: "listeners_table \<Rightarrow> EventType \<Rightarrow> EventListener \<Rightarrow> listeners_table" where
  "table_add m e c =
     (if nat e \<ge> length m then resize m (nat e + 1) else m)[nat e := listeners_of m e @ [c]]"


section \<open>Lua values and the registry\<close>

text \<open>
  The Lua C API is not part of the repository; the model keeps what the file relies on,
  after the Lua reference manual. A value is modelled by its type and, for functions,
  tables and userdata, by an identity. A float carries the text that \<^verbatim>\<open>lua_tostring\<close>
  gives for it, which is all the file can observe of a float. An argument that is
  absent behaves as \<open>nil\<close> for every API function used here.
\<close>

datatype lua_value =
    LNil
  | LBoolean bool
  | LInteger int
  | LFloat string
  | LString string
  | LFunction nat
  | LUserdata nat
  | LTable nat

fun lua_isfunction :: "lua_value \<Rightarrow> bool" where
  "lua_isfunction (LFunction f) = True"
| "lua_isfunction v = False"

text \<open>\<^verbatim>\<open>lua_isinteger\<close>: a number that is represented as an integer, not a float or a string.\<close>

fun lua_isinteger :: "lua_value \<Rightarrow> bool" where
  "lua_isinteger (LInteger i) = True"
| "lua_isinteger v = False"

fun lua_tointeger :: "lua_value \<Rightarrow> int" where
  "lua_tointeger (LInteger i) = i"
| "lua_tointeger v = 0"

text \<open>
  The result of \<^verbatim>\<open>lua_tointeger\<close> is a 64-bit \<^verbatim>\<open>lua_Integer\<close>; the file stores it in an
  \<^verbatim>\<open>int\<close>, which keeps the low 32 bits, read as a signed number.
\<close>

definition to_int :: "int \<Rightarrow> int" where
  "to_int x = (x + 2 ^ 31) mod 2 ^ 32 - 2 ^ 31"

text \<open>Decimal digits of an integer, as \<^verbatim>\<open>lua_tostring\<close> writes an integer.\<close>

definition digit_char :: "nat \<Rightarrow> char" where
  "digit_char d = ''0123456789'' ! d"

fun decimal :: "nat \<Rightarrow> string" where
  "decimal n = (if n < 10 then [digit_char n] else decimal (n div 10) @ [digit_char (n mod 10)])"

declare decimal.simps [simp del]

definition integer_text :: "int \<Rightarrow> string" where
  "integer_text i = (if i < 0 then CHR ''-'' # decimal (nat (- i)) else decimal (nat i))"

text \<open>
  \<^verbatim>\<open>lua_tostring\<close>: the bytes of a string, the text of a number, and \<^verbatim>\<open>NULL\<close> (\<open>None\<close>)
  for every other value. A Lua string may hold zero bytes; C code that takes the
  \<^verbatim>\<open>const char*\<close> sees the bytes before the first of them, \<open>c_str\<close>.
\<close>

fun lua_tostring :: "lua_value \<Rightarrow> string option" where
  "lua_tostring (LString s) = Some s"
| "lua_tostring (LInteger i) = Some (integer_text i)"
| "lua_tostring (LFloat s) = Some s"
| "lua_tostring v = None"

text \<open>\<^verbatim>\<open>lua_isstring\<close>: a string or a number, the values \<^verbatim>\<open>lua_tostring\<close> converts.\<close>

fun lua_isstring :: "lua_value \<Rightarrow> bool" where
  "lua_isstring (LString s) = True"
| "lua_isstring (LInteger i) = True"
| "lua_isstring (LFloat s) = True"
| "lua_isstring v = False"

definition c_str :: "string \<Rightarrow> string" where
  "c_str s = takeWhile (\<lambda>c. c \<noteq> CHR 0x00) s"

text \<open>
  \<^verbatim>\<open>std::strcmp\<close> on two byte sequences, each ending at its first zero byte or at its
  end: negative, zero or positive, bytes compared as unsigned.
\<close>

fun strcmp :: "string \<Rightarrow> string \<Rightarrow> int" where
  "strcmp [] [] = 0"
| "strcmp [] (b # bs) = (if b = CHR 0x00 then 0 else - 1)"
| "strcmp (a # as) [] = (if a = CHR 0x00 then 0 else 1)"
| "strcmp (a # as) (b # bs) =
     (if a = b then (if a = CHR 0x00 then 0 else strcmp as bs)
      else if (of_char a :: nat) < of_char b then - 1 else 1)"

text \<open>
  The registry, restricted to its integer keys, in the order in which \<^verbatim>\<open>lua_next\<close>
  goes through it (an order Lua does not specify, so every order is a possible
  registry). Entries under other keys fail the test \<^verbatim>\<open>lua_isnumber(L, -2)\<close> of the scan in
  \<open>Events_off\<close>, and neither \<^verbatim>\<open>luaL_ref\<close> nor \<^verbatim>\<open>luaL_unref\<close> touches them.

  \<^verbatim>\<open>luaL_ref\<close> stores the value under a reference of its choice, which is a parameter
  \<open>alloc\<close> of the model; \<^verbatim>\<open>luaL_unref\<close> removes the entry of a reference that is not
  negative and does nothing for \<^verbatim>\<open>LUA_NOREF\<close> and \<^verbatim>\<open>LUA_REFNIL\<close>.
\<close>

type_synonym registry = "(int \<times> lua_value) list"

definition LUA_REFNIL :: int where
  "LUA_REFNIL = - 1"

definition luaL_ref :: "(registry \<Rightarrow> int) \<Rightarrow> lua_value \<Rightarrow> registry \<Rightarrow> int \<times> registry" where
  "luaL_ref alloc v reg =
     (if v = LNil then (LUA_REFNIL, reg)
      else (alloc reg, AList.update (alloc reg) v reg))"

definition luaL_unref :: "registry \<Rightarrow> int \<Rightarrow> registry" where
  "luaL_unref reg r = (if r \<ge> 0 then AList.delete r reg else reg)"

text \<open>
  What a function called from Lua does: it returns values, it raises a Lua error with
  \<^verbatim>\<open>luaL_error\<close>, both leaving a state, or it runs into undefined behaviour.
\<close>

datatype 's lua_result =
    Return "lua_value list" 's
  | Raise string 's
  | Crash error

section \<open>Dispatch: Events::call\<close>

text \<open>
  \<^verbatim>\<open>lua_rawgeti\<close> followed by \<^verbatim>\<open>lua_pcall\<close> runs the Lua value stored under a reference.
  The model takes what that does as a parameter \<open>invoke\<close>, which gives for each
  reference
  \<^item> the calls of \<open>add\<close> and \<open>remove\<close> on this same \<open>Events\<close> object that the callback
    makes (through \<open>on\<close> and \<open>off\<close>), in order, and
  \<^item> how the protected call ends: \<open>Returned\<close> (status \<^verbatim>\<open>LUA_OK\<close>), \<open>Failed v\<close> (another
    status, with the error value \<open>v\<close> on the stack) or \<open>Thrown what\<close> (a
    \<^verbatim>\<open>std::exception\<close> leaves the loop body and reaches the \<^verbatim>\<open>catch\<close> clause).
\<close>

datatype outcome = Returned | Failed lua_value | Thrown string

record callback =
  actions :: "table_op list"
  outcome :: outcome

text \<open>
  The range-based \<^verbatim>\<open>for\<close> takes \<^verbatim>\<open>begin()\<close> and \<^verbatim>\<open>end()\<close> of \<^verbatim>\<open>m_listeners[eventType]\<close>
  once, before the first callback runs. A \<^verbatim>\<open>push_back\<close> on that vector invalidates its
  past-the-end iterator (and every iterator, if it reallocates); an \<^verbatim>\<open>erase\<close>
  invalidates the iterators from the erased element on, the past-the-end one included.
  \<open>invalidates e x m\<close> says that operation \<open>x\<close>, run on table \<open>m\<close>, does one of these to
  the vector of event type \<open>e\<close>.
\<close>

fun invalidates :: "EventType \<Rightarrow> table_op \<Rightarrow> listeners_table \<Rightarrow> bool" where
  "invalidates e (Add e' c) m = (e' = e)"
| "invalidates e (Remove c) m = contains_listener (listeners_of m e) c"

text \<open>
  The \<open>add\<close> and \<open>remove\<close> calls of one callback; the flag records whether the iterators
  of the running loop are still valid.
\<close>

fun perform ::
  "'w hooks \<Rightarrow> EventType \<Rightarrow> table_op list \<Rightarrow> listeners_table \<times> 'w \<Rightarrow> bool
     \<Rightarrow> error + (listeners_table \<times> 'w) \<times> bool" where
  "perform hk e [] s valid = Inr (s, valid)"
| "perform hk e (x # xs) s valid =
     (case step hk x s of
        Inl err \<Rightarrow> Inl err
      | Inr s' \<Rightarrow> perform hk e xs s' (valid \<and> \<not> invalidates e x (fst s)))"

text \<open>
  What a dispatch leaves behind besides the state: the references it has called, and the
  lines passed to \<^verbatim>\<open>engine->consolePrint\<close>.
\<close>

record dispatch_log =
  invoked :: "EventListener list"
  console :: "string list"

definition consolePrint :: "string \<Rightarrow> dispatch_log \<Rightarrow> dispatch_log" where
  "consolePrint s lg = lg\<lparr>console := console lg @ [c_str s]\<rparr>"

text \<open>
  The loop of \<open>call\<close> over the references from the iterator on. After a callback that
  returned or failed, the loop increments the iterator and compares it with the
  past-the-end iterator taken at the start: with iterators that are no longer valid
  this is undefined. After an exception the loop is left and the iterators are not used
  again.
\<close>

fun call_loop ::
  "'w hooks \<Rightarrow> (EventListener \<Rightarrow> callback) \<Rightarrow> EventType \<Rightarrow> EventListeners
     \<Rightarrow> (listeners_table \<times> 'w) \<times> dispatch_log
     \<Rightarrow> error + (listeners_table \<times> 'w) \<times> dispatch_log" where
  "call_loop hk invoke e [] st = Inr st"
| "call_loop hk invoke e (callbackRef # rest) (s, lg) =
     (case perform hk e (actions (invoke callbackRef)) s True of
        Inl err \<Rightarrow> Inl err
      | Inr (s', valid) \<Rightarrow>
          let lg1 = lg\<lparr>invoked := invoked lg @ [callbackRef]\<rparr> in
          (case outcome (invoke callbackRef) of
             Thrown what \<Rightarrow> Inr (s', consolePrint what lg1)
           | Failed v \<Rightarrow>
               let lg2 = (case lua_tostring v of Some msg \<Rightarrow> consolePrint msg lg1 | None \<Rightarrow> lg1)
               in if valid then call_loop hk invoke e rest (s', lg2) else Inl InvalidIterator
           | Returned \<Rightarrow>
               if valid then call_loop hk invoke e rest (s', lg1) else Inl InvalidIterator))"

text \<open>
  \<^verbatim>\<open>if (eventType >= m_listeners.size()) return;\<close> is an unsigned comparison, which a
  negative event type satisfies.
\<close>

definition Events_call ::
  "'w hooks \<Rightarrow> (EventListener \<Rightarrow> callback) \<Rightarrow> EventType
     \<Rightarrow> (listeners_table \<times> 'w) \<times> dispatch_log
     \<Rightarrow> error + (listeners_table \<times> 'w) \<times> dispatch_log" where
  "Events_call hk invoke eventType st =
     (case st of ((m, w), lg) \<Rightarrow>
        if eventType < 0 \<or> nat eventType \<ge> length m then Inr st
        else call_loop hk invoke eventType (m ! nat eventType) st)"


text \<open>
  The dispatch in closed form, for callbacks that leave the table alone: the references
  reached are those up to and including the first whose call ends in an exception, and
  \<open>printed\<close> is what the loop passes to the console for one of them.
\<close>

fun reached :: "(EventListener \<Rightarrow> callback) \<Rightarrow> EventListeners \<Rightarrow> EventListeners" where
  "reached invoke [] = []"
| "reached invoke (c # rest) =
     c # (case outcome (invoke c) of Thrown what \<Rightarrow> [] | Failed v \<Rightarrow> reached invoke rest
          | Returned \<Rightarrow> reached invoke rest)"

fun printed :: "outcome \<Rightarrow> string list" where
  "printed Returned = []"
| "printed (Failed v) = (case lua_tostring v of Some msg \<Rightarrow> [c_str msg] | None \<Rightarrow> [])"
| "printed (Thrown what) = [c_str what]"

fun throws :: "outcome \<Rightarrow> bool" where
  "throws (Thrown what) = True"
| "throws v = False"

section \<open>Event names\<close>

text \<open>
  \<^verbatim>\<open>enum : EventType { Unknown = -1, SiteChange, FgColorChange, BgColorChange }\<close> in
  \<open>AppEvents\<close> and \<^verbatim>\<open>enum : EventType { Unknown = -1, Change, FilenameChange }\<close> in
  \<open>SpriteEvents\<close>.
\<close>

definition Unknown :: EventType where "Unknown = - 1"
definition SiteChange :: EventType where "SiteChange = 0"
definition FgColorChange :: EventType where "FgColorChange = 1"
definition BgColorChange :: EventType where "BgColorChange = 2"
definition Change :: EventType where "Change = 0"
definition FilenameChange :: EventType where "FilenameChange = 1"

definition AppEvents_eventType :: "string \<Rightarrow> EventType" where
  "AppEvents_eventType eventName =
     (if strcmp eventName ''sitechange'' = 0 then SiteChange
      else if strcmp eventName ''fgcolorchange'' = 0 then FgColorChange
      else if strcmp eventName ''bgcolorchange'' = 0 then BgColorChange
      else Unknown)"

definition SpriteEvents_eventType :: "string \<Rightarrow> EventType" where
  "SpriteEvents_eventType eventName =
     (if strcmp eventName ''change'' = 0 then Change
      else if strcmp eventName ''filenamechange'' = 0 then FilenameChange
      else Unknown)"

text \<open>
  Two names differ only in letter case when they agree after every ASCII capital is
  replaced by its small letter. This is the reading of "case-insensitive" that the
  event-name functions are compared with; nothing in the source computes it.
\<close>

definition to_lower :: "char \<Rightarrow> char" where
  "to_lower c =
     (case map_of (zip ''ABCDEFGHIJKLMNOPQRSTUVWXYZ'' ''abcdefghijklmnopqrstuvwxyz'') c of
        Some l \<Rightarrow> l
      | None \<Rightarrow> c)"

definition same_modulo_case :: "string \<Rightarrow> string \<Rightarrow> bool" where
  "same_modulo_case a b = (map to_lower a = map to_lower b)"

section \<open>The script interface: on and off\<close>

text \<open>
  The state of a call: the listener table of the \<open>Events\<close> object in argument 1 with the
  state its hooks act on, and the registry. \<open>eventType\<close> is the virtual function of
  the object, \<open>arg2\<close> and \<open>arg3\<close> are the Lua values at stack index 2 and 3.
\<close>

type_synonym 'w script_state = "(listeners_table \<times> 'w) \<times> registry"

definition Events_on ::
  "(string \<Rightarrow> EventType) \<Rightarrow> 'w hooks \<Rightarrow> (registry \<Rightarrow> int) \<Rightarrow> lua_value \<Rightarrow> lua_value
     \<Rightarrow> 'w script_state \<Rightarrow> 'w script_state lua_result" where
  "Events_on eventType hk alloc arg2 arg3 st =
     (case st of (s, reg) \<Rightarrow>
        (case lua_tostring arg2 of
           None \<Rightarrow> Return [] st
         | Some eventName \<Rightarrow>
             let type = eventType eventName in
             if type < 0 then Raise ''invalid event name to listen'' st
             else if \<not> lua_isfunction arg3 then Raise ''second argument must be a function'' st
             else
               (case luaL_ref alloc arg3 reg of
                  (callbackRef, reg') \<Rightarrow>
                    (case Events_add hk type callbackRef s of
                       Inl err \<Rightarrow> Crash err
                     | Inr s' \<Rightarrow> Return [LInteger callbackRef] (s', reg')))))"

text \<open>
  The scan of \<open>Events_off\<close> for a function argument: \<^verbatim>\<open>lua_next\<close> over the registry, first
  match wins. \<^verbatim>\<open>lua_compare\<close> with \<^verbatim>\<open>LUA_OPEQ\<close> on two functions is identity. Without a
  match the reference stays \<^verbatim>\<open>LUA_REFNIL\<close>.
\<close>

fun find_by_function :: "registry \<Rightarrow> lua_value \<Rightarrow> listeners_table \<Rightarrow> int" where
  "find_by_function [] arg2 m = LUA_REFNIL"
| "find_by_function ((k, v) # rest) arg2 m =
     (if lua_isfunction v then
        (let i = to_int k in
         if v = arg2 \<and> Events_hasListener m i then i
         else find_by_function rest arg2 m)
      else find_by_function rest arg2 m)"

definition Events_off ::
  "'w hooks \<Rightarrow> lua_value \<Rightarrow> 'w script_state \<Rightarrow> 'w script_state lua_result" where
  "Events_off hk arg2 st =
     (case st of (s, reg) \<Rightarrow>
        (case (if lua_isinteger arg2 then Some (to_int (lua_tointeger arg2))
               else if lua_isfunction arg2 then Some (find_by_function reg arg2 (fst s))
               else None) of
           None \<Rightarrow> Raise ''first argument must be a function or a EventListener'' st
         | Some callbackRef \<Rightarrow>
             if callbackRef \<noteq> LUA_REFNIL \<and> Events_hasListener (fst s) callbackRef
             then (case Events_remove hk callbackRef s of
                     Inl err \<Rightarrow> Crash err
                   | Inr s' \<Rightarrow> Return [] (s', luaL_unref reg callbackRef))
             else Return [] st))"

section \<open>SpriteEvents and the registry of sprite events\<close>

text \<open>
  \<^verbatim>\<open>doc::get<Sprite>(id)\<close> followed by \<^verbatim>\<open>sprite->document()\<close> is a lookup in the table of
  live objects: \<open>objects\<close> gives the \<open>Doc\<close> of a sprite id, or \<open>None\<close> when the
  id does not resolve. A \<^verbatim>\<open>Doc*\<close> is the key of the document, \<open>None\<close> for \<^verbatim>\<open>nullptr\<close>.

  Of a \<open>Doc\<close> the model keeps its list of observers, the list of observers of its undo
  history, and the calls of \<open>add_observer\<close> and \<open>remove_observer\<close> it has received, in
  order. An observer is a \<open>SpriteEvents\<close> object, named by its \<open>m_spriteId\<close>; there is
  at most one per sprite.
\<close>

type_synonym ObjectId = nat

datatype doc_call =
    AddObserver ObjectId
  | RemoveObserver ObjectId
  | UndoAddObserver ObjectId
  | UndoRemoveObserver ObjectId

record Doc =
  observers :: "ObjectId list"
  undo_observers :: "ObjectId list"
  received :: "doc_call list"

type_synonym objects = "ObjectId \<Rightarrow> Doc option"

definition add_observer :: "ObjectId \<Rightarrow> Doc \<Rightarrow> Doc" where
  "add_observer x d = d\<lparr>observers := observers d @ [x], received := received d @ [AddObserver x]\<rparr>"

definition remove_observer :: "ObjectId \<Rightarrow> Doc \<Rightarrow> Doc" where
  "remove_observer x d =
     d\<lparr>observers := removeAll x (observers d), received := received d @ [RemoveObserver x]\<rparr>"

definition undo_add_observer :: "ObjectId \<Rightarrow> Doc \<Rightarrow> Doc" where
  "undo_add_observer x d =
     d\<lparr>undo_observers := undo_observers d @ [x], received := received d @ [UndoAddObserver x]\<rparr>"

definition undo_remove_observer :: "ObjectId \<Rightarrow> Doc \<Rightarrow> Doc" where
  "undo_remove_observer x d =
     d\<lparr>undo_observers := removeAll x (undo_observers d),
       received := received d @ [UndoRemoveObserver x]\<rparr>"

text \<open>A member call through a \<^verbatim>\<open>Doc*\<close>; through a null pointer it is undefined.\<close>

definition on_doc :: "ObjectId option \<Rightarrow> (Doc \<Rightarrow> Doc) \<Rightarrow> objects \<Rightarrow> error + objects" where
  "on_doc p f objs =
     (case p of
        None \<Rightarrow> Inl NullDereference
      | Some k \<Rightarrow> (case objs k of None \<Rightarrow> Inl NullDereference | Some d \<Rightarrow> Inr (objs(k \<mapsto> f d))))"

text \<open>The fields of \<open>SpriteEvents\<close>; its hooks act on them and on the live objects.\<close>

record SpriteEvents_fields =
  m_spriteId :: ObjectId
  m_observingUndo :: bool

type_synonym sprite_state = "SpriteEvents_fields \<times> objects"

definition doc :: "sprite_state \<Rightarrow> ObjectId option" where
  "doc s = (case s of (this, objs) \<Rightarrow>
              (case objs (m_spriteId this) of None \<Rightarrow> None | Some d \<Rightarrow> Some (m_spriteId this)))"

definition disconnectFromUndoHistory :: "ObjectId option \<Rightarrow> sprite_state \<Rightarrow> error + sprite_state" where
  "disconnectFromUndoHistory p s =
     (case s of (this, objs) \<Rightarrow>
        if m_observingUndo this then
          (case on_doc p (undo_remove_observer (m_spriteId this)) objs of
             Inl err \<Rightarrow> Inl err
           | Inr objs' \<Rightarrow> Inr (this\<lparr>m_observingUndo := False\<rparr>, objs'))
        else Inr s)"

text \<open>
  The two overrides. \<^verbatim>\<open>ASSERT\<close> is compiled out of release builds and is not modelled,
  here and below.
\<close>

definition SpriteEvents_onAddFirstListener :: "EventType \<Rightarrow> sprite_state \<Rightarrow> error + sprite_state" where
  "SpriteEvents_onAddFirstListener eventType s =
     (case s of (this, objs) \<Rightarrow>
        if eventType = Change then
          (case on_doc (doc s) (undo_add_observer (m_spriteId this)) objs of
             Inl err \<Rightarrow> Inl err
           | Inr objs' \<Rightarrow> Inr (this\<lparr>m_observingUndo := True\<rparr>, objs'))
        else Inr s)"

definition SpriteEvents_onRemoveLastListener :: "EventType \<Rightarrow> sprite_state \<Rightarrow> error + sprite_state" where
  "SpriteEvents_onRemoveLastListener eventType s =
     (if eventType = Change then disconnectFromUndoHistory (doc s) s else Inr s)"

definition SpriteEvents_hooks :: "sprite_state hooks" where
  "SpriteEvents_hooks =
     \<lparr> onAddFirstListener = SpriteEvents_onAddFirstListener,
       onRemoveLastListener = SpriteEvents_onRemoveLastListener \<rparr>"

text \<open>
  The constructor: \<^verbatim>\<open>m_spriteId(sprite->id())\<close>, then \<^verbatim>\<open>doc()->add_observer(this)\<close>, with an
  empty listener table. The destructor: with a document that resolves, disconnect from
  the undo history and \<^verbatim>\<open>doc->remove_observer(this)\<close>; nothing otherwise.
\<close>

type_synonym SpriteEvents = "listeners_table \<times> SpriteEvents_fields"

definition SpriteEvents_new :: "ObjectId \<Rightarrow> objects \<Rightarrow> error + SpriteEvents \<times> objects" where
  "SpriteEvents_new sprite_id objs =
     (let this = \<lparr> m_spriteId = sprite_id, m_observingUndo = False \<rparr> in
      case on_doc (doc (this, objs)) (add_observer sprite_id) objs of
        Inl err \<Rightarrow> Inl err
      | Inr objs' \<Rightarrow> Inr (([], this), objs'))"

definition SpriteEvents_destroy :: "sprite_state \<Rightarrow> error + objects" where
  "SpriteEvents_destroy s =
     (case doc s of
        None \<Rightarrow> Inr (snd s)
      | Some k \<Rightarrow>
          (case disconnectFromUndoHistory (Some k) s of
             Inl err \<Rightarrow> Inl err
           | Inr (this, objs) \<Rightarrow> on_doc (Some k) (remove_observer (m_spriteId this)) objs))"

text \<open>
  The globals of the file: \<^verbatim>\<open>g_spriteEvents\<close>, a \<^verbatim>\<open>std::map\<close> from sprite id to the owned
  \<open>SpriteEvents\<close>; the static flag \<open>atExit\<close> of \<open>push_sprite_events\<close>; the slots
  connected to the \<^verbatim>\<open>App::Exit\<close> signal; and the live objects. The slot that
  \<open>push_app_events\<close> connects resets \<^verbatim>\<open>g_appEvents\<close> only and is left out.
\<close>

datatype exit_slot = ClearSpriteEvents

record globals =
  g_spriteEvents :: "(ObjectId \<times> SpriteEvents) list"
  atExit :: bool
  Exit_slots :: "exit_slot list"
  objects :: objects

definition push_sprite_events :: "ObjectId \<Rightarrow> globals \<Rightarrow> error + globals" where
  "push_sprite_events sprite_id g =
     (let g1 = (if \<not> atExit g
                then g\<lparr>atExit := True, Exit_slots := Exit_slots g @ [ClearSpriteEvents]\<rparr>
                else g)
      in case map_of (g_spriteEvents g1) sprite_id of
           Some spriteEvents \<Rightarrow> Inr g1
         | None \<Rightarrow>
             (case SpriteEvents_new sprite_id (objects g1) of
                Inl err \<Rightarrow> Inl err
              | Inr (spriteEvents, objs') \<Rightarrow>
                  Inr (g1\<lparr>g_spriteEvents := AList.update sprite_id spriteEvents (g_spriteEvents g1),
                          objects := objs'\<rparr>)))"

text \<open>
  \<open>onCloseDocument\<close>, a member of the instance \<open>this\<close>: \<^verbatim>\<open>g_spriteEvents.erase(it)\<close> runs
  the destructor of the entry it removes.
\<close>

definition onCloseDocument :: "SpriteEvents_fields \<Rightarrow> globals \<Rightarrow> error + globals" where
  "onCloseDocument this g =
     (case map_of (g_spriteEvents g) (m_spriteId this) of
        None \<Rightarrow> Inr g
      | Some (m, entry) \<Rightarrow>
          (case SpriteEvents_destroy (entry, objects g) of
             Inl err \<Rightarrow> Inl err
           | Inr objs' \<Rightarrow>
               Inr (g\<lparr>g_spriteEvents := AList.delete (m_spriteId this) (g_spriteEvents g),
                      objects := objs'\<rparr>)))"

text \<open>\<^verbatim>\<open>g_spriteEvents.clear()\<close> destroys every entry; the signal runs its slots in order.\<close>

fun destroy_all :: "(ObjectId \<times> SpriteEvents) list \<Rightarrow> objects \<Rightarrow> error + objects" where
  "destroy_all [] objs = Inr objs"
| "destroy_all ((k, (m, entry)) # rest) objs =
     (case SpriteEvents_destroy (entry, objs) of
        Inl err \<Rightarrow> Inl err
      | Inr objs' \<Rightarrow> destroy_all rest objs')"

definition g_spriteEvents_clear :: "globals \<Rightarrow> error + globals" where
  "g_spriteEvents_clear g =
     (case destroy_all (g_spriteEvents g) (objects g) of
        Inl err \<Rightarrow> Inl err
      | Inr objs' \<Rightarrow> Inr (g\<lparr>g_spriteEvents := [], objects := objs'\<rparr>))"

fun run_slots :: "exit_slot list \<Rightarrow> globals \<Rightarrow> error + globals" where
  "run_slots [] g = Inr g"
| "run_slots (ClearSpriteEvents # rest) g =
     (case g_spriteEvents_clear g of Inl err \<Rightarrow> Inl err | Inr g' \<Rightarrow> run_slots rest g')"

definition App_Exit :: "globals \<Rightarrow> error + globals" where
  "App_Exit g = run_slots (Exit_slots g) g"

text \<open>
  What happens to the globals between start and exit: a script asks for the events of a
  sprite, a document tells its observer that it closes, a script adds or removes a
  listener of a sprite's events (\<open>Events_on\<close> reaches \<open>add\<close> only with an event type
  that is not negative), an object stops being live.
\<close>

datatype app_op =
    PushSpriteEvents ObjectId
  | CloseDocument ObjectId
  | Listen ObjectId EventType EventListener
  | Unlisten ObjectId EventListener
  | Delete ObjectId

definition on_instance ::
  "ObjectId \<Rightarrow> (listeners_table \<times> sprite_state \<Rightarrow> error + listeners_table \<times> sprite_state)
     \<Rightarrow> globals \<Rightarrow> error + globals" where
  "on_instance k f g =
     (case map_of (g_spriteEvents g) k of
        None \<Rightarrow> Inr g
      | Some (m, this) \<Rightarrow>
          (case f (m, (this, objects g)) of
             Inl err \<Rightarrow> Inl err
           | Inr (m', (this', objs')) \<Rightarrow>
               Inr (g\<lparr>g_spriteEvents := AList.update k (m', this') (g_spriteEvents g),
                      objects := objs'\<rparr>)))"

fun app_step :: "app_op \<Rightarrow> globals \<Rightarrow> error + globals" where
  "app_step (PushSpriteEvents k) g = push_sprite_events k g"
| "app_step (CloseDocument k) g =
     (case map_of (g_spriteEvents g) k of
        None \<Rightarrow> Inr g
      | Some (m, this) \<Rightarrow> onCloseDocument this g)"
| "app_step (Listen k e c) g =
     (if e < 0 then Inr g else on_instance k (Events_add SpriteEvents_hooks e c) g)"
| "app_step (Unlisten k c) g = on_instance k (Events_remove SpriteEvents_hooks c) g"
| "app_step (Delete k) g = Inr (g\<lparr>objects := (objects g)(k := None)\<rparr>)"

fun app_run :: "app_op list \<Rightarrow> globals \<Rightarrow> error + globals" where
  "app_run [] g = Inr g"
| "app_run (x # xs) g = (case app_step x g of Inl err \<Rightarrow> Inl err | Inr g' \<Rightarrow> app_run xs g')"

definition initial :: "objects \<Rightarrow> globals" where
  "initial objs = \<lparr> g_spriteEvents = [], atExit = False, Exit_slots = [], objects = objs \<rparr>"


text \<open>
  What the destructor does to a document that resolves, and what it means that an
  instance is detached from its document: the document, if it is still live, does not
  have the instance among its observers, nor among the observers of its undo history if
  the instance had subscribed there.
\<close>

definition after_destroy :: "SpriteEvents_fields \<Rightarrow> Doc \<Rightarrow> Doc" where
  "after_destroy this d =
     remove_observer (m_spriteId this)
       (if m_observingUndo this then undo_remove_observer (m_spriteId this) d else d)"

definition detached :: "SpriteEvents_fields \<Rightarrow> objects \<Rightarrow> bool" where
  "detached this objs =
     (case objs (m_spriteId this) of
        None \<Rightarrow> True
      | Some d \<Rightarrow> m_spriteId this \<notin> set (observers d)
                  \<and> (m_observingUndo this \<longrightarrow> m_spriteId this \<notin> set (undo_observers d)))"

text \<open>
  The slot that clears the registry is connected before the first entry is made:
  \<open>atExit\<close> is set only together with the connection, and an entry is made only after
  \<open>atExit\<close> is set.
\<close>

definition exit_connected :: "globals \<Rightarrow> bool" where
  "exit_connected g \<longleftrightarrow>
     (atExit g \<longrightarrow> Exit_slots g \<noteq> []) \<and> (g_spriteEvents g \<noteq> [] \<longrightarrow> atExit g)"


section \<open>Properties of the listener table\<close>

subsection \<open>The loops in closed form\<close>

lemma erase_loop_eq:
  "erase_loop c kept rest removed = (kept @ removeAll c rest, removed \<or> c \<in> set rest)"
  by (induction rest arbitrary: kept removed) auto

lemma contains_listener_iff: "contains_listener l c \<longleftrightarrow> c \<in> set l"
  by (induction l) auto

lemma hasListener_iff: "Events_hasListener m c \<longleftrightarrow> (\<exists>l \<in> set m. c \<in> set l)"
  by (induction m) (auto simp: contains_listener_iff)

lemma trace_hooks_add [simp]: "onAddFirstListener trace_hooks e tr = Inr (tr @ [AddFirst e])"
  by (simp add: trace_hooks_def)

lemma trace_hooks_remove [simp]:
  "onRemoveLastListener trace_hooks e tr = Inr (tr @ [RemoveLast e])"
  by (simp add: trace_hooks_def)

lemma remove_loop_trace:
  "remove_loop trace_hooks c i (m, tr) =
     Inr (take i m @ map (removeAll c) (drop i m), tr @ fired_from c i (drop i m))"
proof (induction "length m - i" arbitrary: i m tr)
  case 0
  then show ?case by (subst remove_loop.simps) simp
next
  case (Suc n)
  then have lt: "i < length m" by simp
  have d: "drop i m = (m ! i) # drop (Suc i) m" using lt by (simp add: Cons_nth_drop_Suc)
  have IH: "remove_loop trace_hooks c (Suc i) (m[i := l], tr') =
     Inr (take i m @ l # map (removeAll c) (drop (Suc i) m),
          tr' @ fired_from c (Suc i) (drop (Suc i) m))"
    for l tr'
  proof -
    have "n = length (m[i := l]) - Suc i" using Suc.hyps(2) by simp
    from Suc.hyps(1)[OF this, of tr'] show ?thesis
      using lt by (simp add: take_Suc_conv_app_nth)
  qed
  show ?case
    using lt by (subst remove_loop.simps) (simp add: erase_loop_eq IH d)
qed

lemma remove_loop_table:
  "remove_loop hk c i (m, w) = Inr (m', w') \<Longrightarrow> m' = take i m @ map (removeAll c) (drop i m)"
proof (induction "length m - i" arbitrary: i m w)
  case 0
  then show ?case by (subst (asm) remove_loop.simps) simp
next
  case (Suc n)
  then have lt: "i < length m" by simp
  have d: "drop i m = (m ! i) # drop (Suc i) m" using lt by (simp add: Cons_nth_drop_Suc)
  have IH: "remove_loop hk c (Suc i) (m[i := l], w1) = Inr (m', w') \<Longrightarrow>
     m' = take i m @ l # map (removeAll c) (drop (Suc i) m)"
    for l w1
  proof -
    assume a: "remove_loop hk c (Suc i) (m[i := l], w1) = Inr (m', w')"
    have "n = length (m[i := l]) - Suc i" using Suc.hyps(2) by simp
    from Suc.hyps(1)[OF this a] show ?thesis
      using lt by (simp add: take_Suc_conv_app_nth)
  qed
  from Suc.prems show ?case
    using lt by (subst (asm) remove_loop.simps)
      (auto simp: erase_loop_eq d dest!: IH split: if_splits sum.splits)
qed

lemma Events_remove_trace:
  "Events_remove trace_hooks c (m, tr) = Inr (map (removeAll c) m, tr @ fired_from c 0 m)"
  by (simp add: Events_remove_def remove_loop_trace)

lemma Events_remove_table:
  "Events_remove hk c (m, w) = Inr (m', w') \<Longrightarrow> m' = map (removeAll c) m"
  by (auto simp: Events_remove_def dest: remove_loop_table)

lemma not_hasListener_removeAll: "\<not> Events_hasListener (map (removeAll c) m) c"
  by (simp add: hasListener_iff)

subsection \<open>Counting the hook calls of one operation\<close>

lemma count_fired_from_add: "count_list (fired_from c i ls) (AddFirst e) = 0"
  by (induction ls arbitrary: i) auto

lemma count_fired_from_remove:
  "count_list (fired_from c i ls) (RemoveLast e) =
     (if int i \<le> e \<and> e < int i + int (length ls) \<and> c \<in> set (ls ! nat (e - int i))
         \<and> removeAll c (ls ! nat (e - int i)) = [] then 1 else 0)"
proof (induction ls arbitrary: i)
  case Nil
  then show ?case by simp
next
  case (Cons l ls)
  have *: "e \<noteq> int i \<Longrightarrow> int i \<le> e \<Longrightarrow> (l # ls) ! nat (e - int i) = ls ! nat (e - int (Suc i))"
  proof -
    assume "e \<noteq> int i" "int i \<le> e"
    then have "nat (e - int i) = Suc (nat (e - int (Suc i)))" by simp
    then show ?thesis by simp
  qed
  show ?case
  proof (cases "e = int i")
    case True
    then show ?thesis using Cons.IH[of "Suc i"] by simp
  next
    case False
    then show ?thesis using * Cons.IH[of "Suc i"] by auto
  qed
qed

lemma count_fired_remove_transition:
  "count_list (fired_from c 0 m) (RemoveLast e) = became_empty e m (map (removeAll c) m)"
  by (auto simp: count_fired_from_remove became_empty_def listeners_of_def)

lemma count_fired_add_transition:
  "count_list (fired_from c 0 m) (AddFirst e) = became_nonempty e m (map (removeAll c) m)"
  by (auto simp: count_fired_from_add became_nonempty_def listeners_of_def)

lemma listeners_of_resize:
  "length m \<le> n \<Longrightarrow> listeners_of (resize m n) e = listeners_of m e"
  by (auto simp: listeners_of_def resize_def nth_append)

lemma listeners_of_update:
  "0 \<le> e \<Longrightarrow> nat e < length m \<Longrightarrow>
   listeners_of (m[nat e := l]) e' = (if e' = e then l else listeners_of m e')"
  by (auto simp: listeners_of_def nth_list_update)

lemma Events_add_trace:
  assumes "0 \<le> e" "e < INT_MAX"
  shows "Events_add trace_hooks e c (m, tr) =
           Inr (table_add m e c, tr @ (if listeners_of m e = [] then [AddFirst e] else []))"
proof (cases "nat e \<ge> length m")
  case True
  then have "resize m (nat e + 1) ! nat e = []"
    by (simp add: resize_def nth_append)
  moreover have "listeners_of m e = []" using True by (simp add: listeners_of_def)
  ultimately show ?thesis using assms True
    by (simp add: Events_add_def table_add_def)
next
  case False
  then have "listeners_of m e = m ! nat e" using assms by (simp add: listeners_of_def)
  then show ?thesis using assms False
    by (auto simp: Events_add_def table_add_def Let_def)
qed

lemma listeners_of_table_add:
  assumes "0 \<le> e"
  shows "listeners_of (table_add m e c) e' =
           (if e' = e then listeners_of m e @ [c] else listeners_of m e')"
proof (cases "nat e \<ge> length m")
  case True
  then have l: "nat e < length (resize m (nat e + 1))" by (simp add: resize_def)
  have "listeners_of (resize m (nat e + 1)) e' = listeners_of m e'" for e'
    using True by (simp add: listeners_of_resize)
  then show ?thesis using assms True listeners_of_update[OF assms l]
    by (simp add: table_add_def)
next
  case False
  then show ?thesis using assms by (simp add: table_add_def listeners_of_update)
qed

lemma step_trace:
  assumes "well_formed_op x"
  shows "\<exists>m' fired. step trace_hooks x (m, tr) = Inr (m', tr @ fired)
           \<and> (\<forall>e. count_list fired (AddFirst e) = became_nonempty e m m'
                  \<and> count_list fired (RemoveLast e) = became_empty e m m')"
proof (cases x)
  case (Add e c)
  then have e: "0 \<le> e" and b: "e < INT_MAX" using assms by simp_all
  show ?thesis unfolding Add step.simps Events_add_trace[OF e b]
    by (auto simp: became_nonempty_def became_empty_def listeners_of_table_add[OF e])
next
  case (Remove c)
  show ?thesis unfolding Remove step.simps Events_remove_trace
    by (simp add: count_fired_remove_transition count_fired_add_transition)
qed

lemma visited_hd: "visited hk xs s = fst s # tl (visited hk xs s)"
  by (cases xs) auto

lemma run_trace:
  assumes "\<forall>x \<in> set ops. well_formed_op x"
  shows "\<exists>m' fired. run trace_hooks ops (m, tr) = Inr (m', tr @ fired)
           \<and> (\<forall>e. count_list fired (AddFirst e)
                     = transitions (became_nonempty e) (visited trace_hooks ops (m, tr))
                  \<and> count_list fired (RemoveLast e)
                     = transitions (became_empty e) (visited trace_hooks ops (m, tr)))"
  using assms
proof (induction ops arbitrary: m tr)
  case Nil
  then show ?case by simp
next
  case (Cons x xs)
  then have wf: "well_formed_op x" and wfs: "\<forall>x \<in> set xs. well_formed_op x" by simp_all
  from step_trace[OF wf, of m tr] obtain m1 f1 where
    s1: "step trace_hooks x (m, tr) = Inr (m1, tr @ f1)" and
    c1: "\<And>e. count_list f1 (AddFirst e) = became_nonempty e m m1"
        "\<And>e. count_list f1 (RemoveLast e) = became_empty e m m1"
    by blast
  from Cons.IH[OF wfs, of m1 "tr @ f1"] obtain m2 f2 where
    s2: "run trace_hooks xs (m1, tr @ f1) = Inr (m2, (tr @ f1) @ f2)" and
    c2: "\<And>e. count_list f2 (AddFirst e)
            = transitions (became_nonempty e) (visited trace_hooks xs (m1, tr @ f1))"
        "\<And>e. count_list f2 (RemoveLast e)
            = transitions (became_empty e) (visited trace_hooks xs (m1, tr @ f1))"
    by blast
  obtain rest where v: "visited trace_hooks xs (m1, tr @ f1) = m1 # rest"
    using visited_hd[of trace_hooks xs "(m1, tr @ f1)"] by simp
  have "run trace_hooks (x # xs) (m, tr) = Inr (m2, tr @ (f1 @ f2))"
    using s1 s2 by simp
  moreover have "count_list (f1 @ f2) (AddFirst e)
      = transitions (became_nonempty e) (visited trace_hooks (x # xs) (m, tr))" for e
    using s1 c1(1)[of e] c2(1)[of e] v by simp
  moreover have "count_list (f1 @ f2) (RemoveLast e)
      = transitions (became_empty e) (visited trace_hooks (x # xs) (m, tr))" for e
    using s1 c1(2)[of e] c2(2)[of e] v by simp
  ultimately show ?case by blast
qed

subsection \<open>Claims on add and remove\<close>

text \<open>
  Claim C1. Take any table and any sequence of \<open>add\<close> and \<open>remove\<close> calls whose \<open>add\<close>
  calls carry an event type that is not negative and below \<^verbatim>\<open>INT_MAX\<close> (the event
  types \<open>Events_on\<close> passes are 0, 1 and 2). With hooks that only record their
  calls, the run completes, and for every event type \<open>e\<close> the number of
  \<open>onAddFirstListener(e)\<close> calls is the number of steps at which the list of \<open>e\<close> went
  from empty to non-empty, and the number of \<open>onRemoveLastListener(e)\<close> calls is the
  number of steps at which it went from non-empty to empty. A step that is no such
  transition (an \<open>add\<close> to a list that has listeners, a \<open>remove\<close> that empties nothing or
  finds nothing) therefore calls no hook.
\<close>

theorem hooks_fire_once_per_transition:
  assumes "list_all well_formed_op ops"
  shows "\<exists>m' fired. run trace_hooks ops (m, []) = Inr (m', fired)
           \<and> (\<forall>e. count_list fired (AddFirst e)
                     = transitions (became_nonempty e) (visited trace_hooks ops (m, []))
                  \<and> count_list fired (RemoveLast e)
                     = transitions (became_empty e) (visited trace_hooks ops (m, [])))"
  using run_trace[of ops m "[]"] assms by (simp add: list_all_iff)

theorem hooks_fire_once_per_transition_witness:
  "list_all well_formed_op [Add 0 5, Add 0 6, Remove 5, Remove 9, Remove 6, Add 1 7]
   \<and> run trace_hooks [Add 0 5, Add 0 6, Remove 5, Remove 9, Remove 6, Add 1 7] ([], [])
       = Inr ([[], [7]], [AddFirst 0, RemoveLast 0, AddFirst 1])
   \<and> transitions (became_nonempty 0)
       (visited trace_hooks [Add 0 5, Add 0 6, Remove 5, Remove 9, Remove 6, Add 1 7] ([], []))
       = 1
   \<and> transitions (became_empty 0)
       (visited trace_hooks [Add 0 5, Add 0 6, Remove 5, Remove 9, Remove 6, Add 1 7] ([], []))
       = 1"
proof -
  have wf: "list_all well_formed_op [Add 0 5, Add 0 6, Remove 5, Remove 9, Remove 6, Add 1 7]"
    by (simp add: INT_MAX_def)
  have r: "run trace_hooks [Add 0 5, Add 0 6, Remove 5, Remove 9, Remove 6, Add 1 7] ([], [])
       = Inr ([[], [7]], [AddFirst 0, RemoveLast 0, AddFirst 1])"
    by code_simp
  from hooks_fire_once_per_transition[OF wf, of "[]"] obtain m' fired where
    a: "run trace_hooks [Add 0 5, Add 0 6, Remove 5, Remove 9, Remove 6, Add 1 7] ([], [])
          = Inr (m', fired)" and
    c: "\<And>e. count_list fired (AddFirst e) = transitions (became_nonempty e)
          (visited trace_hooks [Add 0 5, Add 0 6, Remove 5, Remove 9, Remove 6, Add 1 7] ([], []))"
       "\<And>e. count_list fired (RemoveLast e) = transitions (became_empty e)
          (visited trace_hooks [Add 0 5, Add 0 6, Remove 5, Remove 9, Remove 6, Add 1 7] ([], []))"
    by blast
  from a[unfolded r] have f: "fired = [AddFirst 0, RemoveLast 0, AddFirst 1]" by simp
  have "count_list fired (AddFirst 0) = 1" "count_list fired (RemoveLast 0) = 1"
    unfolding f by simp_all
  then show ?thesis using wf r c(1)[of 0] c(2)[of 0] by (simp only: simp_thms)
qed

text \<open>
  Claim C3. \<open>remove(handle)\<close> leaves every list of the table without the handle and
  otherwise as it was, whatever the hooks do, provided they return; \<open>hasListener(handle)\<close>
  is false on the result. With hooks that only record their calls, \<open>remove\<close> returns, it
  calls \<open>onRemoveLastListener(e)\<close> once for each event type \<open>e\<close> whose list had listeners
  before and has none after, for no other event type, and never \<open>onAddFirstListener\<close>.
\<close>

theorem remove_deletes_every_occurrence:
  "(\<forall>hk w m' w'. Events_remove hk callbackRef (m, w) = Inr (m', w') \<longrightarrow>
       m' = map (removeAll callbackRef) m \<and> \<not> Events_hasListener m' callbackRef)
   \<and> (\<exists>fired. Events_remove trace_hooks callbackRef (m, tr)
                  = Inr (map (removeAll callbackRef) m, tr @ fired)
         \<and> (\<forall>e. count_list fired (RemoveLast e)
                   = (if listeners_of m e \<noteq> []
                         \<and> listeners_of (map (removeAll callbackRef) m) e = [] then 1 else 0)
                \<and> count_list fired (AddFirst e) = 0))"
proof (intro conjI allI impI)
  fix hk :: "'a hooks" and w m' w'
  assume a: "Events_remove hk callbackRef (m, w) = Inr (m', w')"
  from Events_remove_table[OF a] show "m' = map (removeAll callbackRef) m" .
  then show "\<not> Events_hasListener m' callbackRef" by (simp add: not_hasListener_removeAll)
next
  show "\<exists>fired. Events_remove trace_hooks callbackRef (m, tr)
                  = Inr (map (removeAll callbackRef) m, tr @ fired)
         \<and> (\<forall>e. count_list fired (RemoveLast e)
                   = (if listeners_of m e \<noteq> []
                         \<and> listeners_of (map (removeAll callbackRef) m) e = [] then 1 else 0)
                \<and> count_list fired (AddFirst e) = 0)"
    using count_fired_remove_transition[of callbackRef m]
    by (intro exI[of _ "fired_from callbackRef 0 m"])
       (simp add: Events_remove_trace count_fired_from_add became_empty_def)
qed

theorem remove_deletes_every_occurrence_witness:
  "Events_remove trace_hooks 7 ([[7, 8], [7, 7], [], [9]], []) = Inr ([[8], [], [], [9]], [RemoveLast 1])
   \<and> \<not> Events_hasListener [[8], [], [], [9]] 7"
proof -
  have r: "Events_remove trace_hooks 7 ([[7, 8], [7, 7], [], [9]], [])
             = Inr ([[8], [], [], [9]], [RemoveLast 1])"
    by code_simp
  from remove_deletes_every_occurrence[of 7 "[[7, 8], [7, 7], [], [9]]" "[]"] r
  show ?thesis by auto
qed

section \<open>Properties of the event names\<close>

lemma strcmp_eq: "strcmp a b = 0 \<longleftrightarrow> c_str a = c_str b"
  by (induction a b rule: strcmp.induct) (auto simp: c_str_def)

lemma AppEvents_eventType_eq:
  "AppEvents_eventType s =
     (if c_str s = ''sitechange'' then SiteChange
      else if c_str s = ''fgcolorchange'' then FgColorChange
      else if c_str s = ''bgcolorchange'' then BgColorChange
      else Unknown)"
  by (simp add: AppEvents_eventType_def strcmp_eq c_str_def)

lemma SpriteEvents_eventType_eq:
  "SpriteEvents_eventType s =
     (if c_str s = ''change'' then Change
      else if c_str s = ''filenamechange'' then FilenameChange
      else Unknown)"
  by (simp add: SpriteEvents_eventType_def strcmp_eq c_str_def)

lemma c_str_split: "\<exists>rest. s = c_str s @ rest \<and> (rest = [] \<or> (\<exists>r. rest = CHR 0x00 # r))"
proof -
  let ?d = "dropWhile (\<lambda>c. c \<noteq> CHR 0x00) s"
  have "s = c_str s @ ?d" by (simp add: c_str_def)
  moreover have "?d = [] \<or> (\<exists>r. ?d = CHR 0x00 # r)"
  proof (cases ?d)
    case Nil then show ?thesis by simp
  next
    case (Cons a r)
    with hd_dropWhile[of "\<lambda>c. c \<noteq> CHR 0x00" s] have "a = CHR 0x00" by auto
    with Cons show ?thesis by simp
  qed
  ultimately show ?thesis by blast
qed

lemma to_lower_nul: "to_lower (CHR 0x00) = CHR 0x00"
  by (simp add: to_lower_def)

lemma case_variant_unrecognized:
  assumes n: "map to_lower n = n" "CHR 0x00 \<notin> set n"
    and v: "same_modulo_case s n" "s \<noteq> n"
    and n': "map to_lower n' = n'" 
  shows "c_str s \<noteq> n'"
proof
  assume c: "c_str s = n'"
  from c_str_split[of s] obtain rest where
    s: "s = n' @ rest" and r: "rest = [] \<or> (\<exists>r. rest = CHR 0x00 # r)" using c by auto
  from v(1) have "map to_lower s = n" using n(1) by (simp add: same_modulo_case_def)
  with s n' have e: "n = n' @ map to_lower rest" by simp
  from r show False
  proof
    assume "rest = []" with e s v(2) show False by simp
  next
    assume "\<exists>r. rest = CHR 0x00 # r"
    then obtain r where "rest = CHR 0x00 # r" by blast
    with e have "CHR 0x00 \<in> set n" by (simp add: to_lower_nul)
    with n(2) show False by simp
  qed
qed

lemma lower_names:
  "map to_lower ''sitechange'' = ''sitechange''"
  "map to_lower ''fgcolorchange'' = ''fgcolorchange''"
  "map to_lower ''bgcolorchange'' = ''bgcolorchange''"
  "map to_lower ''change'' = ''change''"
  "map to_lower ''filenamechange'' = ''filenamechange''"
  by (simp_all add: to_lower_def)

lemma app_case_variant:
  assumes "n \<in> {''sitechange'', ''fgcolorchange'', ''bgcolorchange''}"
    and "same_modulo_case s n" "s \<noteq> n"
  shows "AppEvents_eventType s = Unknown"
proof -
  have n: "map to_lower n = n" "CHR 0x00 \<notin> set n" using assms(1) lower_names by auto
  note u = case_variant_unrecognized[OF n assms(2,3)]
  have "c_str s \<noteq> ''sitechange''" "c_str s \<noteq> ''fgcolorchange''" "c_str s \<noteq> ''bgcolorchange''"
    by (rule u, rule lower_names)+
  then show ?thesis by (simp add: AppEvents_eventType_eq)
qed

lemma sprite_case_variant:
  assumes "n \<in> {''change'', ''filenamechange''}"
    and "same_modulo_case s n" "s \<noteq> n"
  shows "SpriteEvents_eventType s = Unknown"
proof -
  have n: "map to_lower n = n" "CHR 0x00 \<notin> set n" using assms(1) lower_names by auto
  note u = case_variant_unrecognized[OF n assms(2,3)]
  have "c_str s \<noteq> ''change''" "c_str s \<noteq> ''filenamechange''"
    by (rule u, rule lower_names)+
  then show ?thesis by (simp add: SpriteEvents_eventType_eq)
qed

text \<open>
  Claim C9, as the code has it. The event-name functions compare with \<^verbatim>\<open>std::strcmp\<close>:
  a name is recognized exactly when its bytes up to the first zero byte are one of the
  listed names, letter for letter. A string that differs from a recognized name in
  letter case, and in nothing else, maps to \<open>Unknown\<close>; \<open>Unknown\<close> is the result for
  the unrecognized names and for no other.
\<close>

theorem eventType_is_case_sensitive:
  "AppEvents_eventType s =
     (if c_str s = ''sitechange'' then SiteChange
      else if c_str s = ''fgcolorchange'' then FgColorChange
      else if c_str s = ''bgcolorchange'' then BgColorChange
      else Unknown)
   \<and> SpriteEvents_eventType s =
     (if c_str s = ''change'' then Change
      else if c_str s = ''filenamechange'' then FilenameChange
      else Unknown)
   \<and> (AppEvents_eventType s = Unknown
        \<longleftrightarrow> c_str s \<notin> {''sitechange'', ''fgcolorchange'', ''bgcolorchange''})
   \<and> (SpriteEvents_eventType s = Unknown \<longleftrightarrow> c_str s \<notin> {''change'', ''filenamechange''})
   \<and> (n \<in> {''sitechange'', ''fgcolorchange'', ''bgcolorchange''} \<and> same_modulo_case s n \<and> s \<noteq> n
        \<longrightarrow> AppEvents_eventType s = Unknown)
   \<and> (n \<in> {''change'', ''filenamechange''} \<and> same_modulo_case s n \<and> s \<noteq> n
        \<longrightarrow> SpriteEvents_eventType s = Unknown)"
proof (intro conjI)
  show "AppEvents_eventType s = Unknown
        \<longleftrightarrow> c_str s \<notin> {''sitechange'', ''fgcolorchange'', ''bgcolorchange''}"
    by (simp add: AppEvents_eventType_eq Unknown_def SiteChange_def FgColorChange_def BgColorChange_def)
  show "SpriteEvents_eventType s = Unknown \<longleftrightarrow> c_str s \<notin> {''change'', ''filenamechange''}"
    by (simp add: SpriteEvents_eventType_eq Unknown_def Change_def FilenameChange_def)
qed (use AppEvents_eventType_eq SpriteEvents_eventType_eq app_case_variant sprite_case_variant in blast)+

theorem eventType_is_case_sensitive_witness:
  "same_modulo_case ''FileNameChange'' ''filenamechange''
   \<and> SpriteEvents_eventType ''FileNameChange'' = Unknown
   \<and> SpriteEvents_eventType ''filenamechange'' = FilenameChange
   \<and> AppEvents_eventType ''BGCOLORCHANGE'' = Unknown"
proof -
  have a: "same_modulo_case ''FileNameChange'' ''filenamechange''"
          "same_modulo_case ''BGCOLORCHANGE'' ''bgcolorchange''"
    by (simp_all add: same_modulo_case_def to_lower_def)
  from eventType_is_case_sensitive[of "''FileNameChange''" "''filenamechange''"]
       eventType_is_case_sensitive[of "''BGCOLORCHANGE''" "''bgcolorchange''"]
       eventType_is_case_sensitive[of "''filenamechange''" "''filenamechange''"] a
  show ?thesis by (simp add: c_str_def)
qed

text \<open>
  Claim C9 as stated fails: \<open>SiteChange\<close> and \<open>sitechange\<close> differ only in letter case
  and do not map to the same event type, and likewise \<open>Change\<close> and \<open>change\<close>.
\<close>

theorem eventType_case_insensitive_counterexample:
  "same_modulo_case ''SiteChange'' ''sitechange''
   \<and> AppEvents_eventType ''sitechange'' = SiteChange
   \<and> AppEvents_eventType ''SiteChange'' = Unknown
   \<and> SiteChange \<noteq> Unknown
   \<and> same_modulo_case ''Change'' ''change''
   \<and> SpriteEvents_eventType ''change'' = Change
   \<and> SpriteEvents_eventType ''Change'' = Unknown
   \<and> Change \<noteq> Unknown"
  by (simp add: same_modulo_case_def to_lower_def AppEvents_eventType_def
      SpriteEvents_eventType_def SiteChange_def Change_def Unknown_def)

section \<open>Properties of on and off\<close>

lemma Events_add_table:
  assumes "Events_add hk e c (m, w) = Inr (m', w')"
  shows "0 \<le> e \<and> m' = table_add m e c"
proof -
  from assms have e: "0 \<le> e" by (auto simp: Events_add_def split: if_splits)
  show ?thesis
  proof (cases "nat e \<ge> length m")
    case True
    then have "listeners_of m e = []" by (simp add: listeners_of_def)
    moreover have "resize m (nat e + 1) ! nat e = []" using True
      by (simp add: resize_def nth_append)
    ultimately show ?thesis using assms e True
      by (auto simp: Events_add_def table_add_def Let_def split: if_splits sum.splits)
  next
    case False
    then have "listeners_of m e = m ! nat e" using e by (simp add: listeners_of_def)
    then show ?thesis using assms e False
      by (auto simp: Events_add_def table_add_def Let_def split: if_splits sum.splits)
  qed
qed

text \<open>
  Claim C7. For an event name that is a string: when the event source does not
  recognize it, \<open>on\<close> raises "invalid event name to listen" and leaves the listener
  table, the state of the hooks and the registry as they were; when it is recognized and
  the callback argument is not a function, \<open>on\<close> raises "second argument must be a
  function", again changing nothing; otherwise \<open>on\<close> stores the function in the registry
  under the reference \<^verbatim>\<open>luaL_ref\<close> picks, appends that reference to the list of the event
  type, leaves every other list and registry entry alone, and returns the reference
  (provided the hook that \<open>add\<close> may call returns).
\<close>

theorem on_checks_then_registers:
  "(arg2 = LString name \<and> eventType name < 0 \<longrightarrow>
      Events_on eventType hk alloc arg2 arg3 st = Raise ''invalid event name to listen'' st)
   \<and> (arg2 = LString name \<and> 0 \<le> eventType name \<and> \<not> lua_isfunction arg3 \<longrightarrow>
      Events_on eventType hk alloc arg2 arg3 st = Raise ''second argument must be a function'' st)
   \<and> (arg2 = LString name \<and> 0 \<le> eventType name \<and> lua_isfunction arg3
       \<and> Events_add hk (eventType name) (alloc reg) (m, w) = Inr (m', w') \<longrightarrow>
      Events_on eventType hk alloc arg2 arg3 ((m, w), reg)
        = Return [LInteger (alloc reg)] ((m', w'), AList.update (alloc reg) arg3 reg)
      \<and> map_of (AList.update (alloc reg) arg3 reg) (alloc reg) = Some arg3
      \<and> (\<forall>k. k \<noteq> alloc reg \<longrightarrow> map_of (AList.update (alloc reg) arg3 reg) k = map_of reg k)
      \<and> listeners_of m' (eventType name) = listeners_of m (eventType name) @ [alloc reg]
      \<and> (\<forall>e. e \<noteq> eventType name \<longrightarrow> listeners_of m' e = listeners_of m e))"
proof (intro conjI impI)
  assume "arg2 = LString name \<and> eventType name < 0"
  then show "Events_on eventType hk alloc arg2 arg3 st = Raise ''invalid event name to listen'' st"
    by (cases st) (simp add: Events_on_def)
next
  assume "arg2 = LString name \<and> 0 \<le> eventType name \<and> \<not> lua_isfunction arg3"
  then show "Events_on eventType hk alloc arg2 arg3 st = Raise ''second argument must be a function'' st"
    by (cases st) (simp add: Events_on_def)
next
  assume a: "arg2 = LString name \<and> 0 \<le> eventType name \<and> lua_isfunction arg3
       \<and> Events_add hk (eventType name) (alloc reg) (m, w) = Inr (m', w')"
  then have nn: "arg3 \<noteq> LNil" by auto
  from a show "Events_on eventType hk alloc arg2 arg3 ((m, w), reg)
        = Return [LInteger (alloc reg)] ((m', w'), AList.update (alloc reg) arg3 reg)"
    using nn by (simp add: Events_on_def luaL_ref_def)
  show "map_of (AList.update (alloc reg) arg3 reg) (alloc reg) = Some arg3"
    by (simp add: update_conv')
  show "\<forall>k. k \<noteq> alloc reg \<longrightarrow> map_of (AList.update (alloc reg) arg3 reg) k = map_of reg k"
    by (simp add: update_conv')
  from a Events_add_table[of hk "eventType name" "alloc reg" m w m' w']
  have e: "0 \<le> eventType name" and t: "m' = table_add m (eventType name) (alloc reg)" by auto
  show "listeners_of m' (eventType name) = listeners_of m (eventType name) @ [alloc reg]"
    unfolding t by (simp add: listeners_of_table_add[OF e])
  show "\<forall>e. e \<noteq> eventType name \<longrightarrow> listeners_of m' e = listeners_of m e"
    unfolding t by (simp add: listeners_of_table_add[OF e])
qed

theorem on_checks_then_registers_witness:
  "Events_on AppEvents_eventType trace_hooks (\<lambda>reg. 1) (LString ''sitechange'') (LFunction 3)
       (([], []), [])
     = Return [LInteger 1] (([[1]], [AddFirst 0]), [(1, LFunction 3)])
   \<and> Events_on AppEvents_eventType trace_hooks (\<lambda>reg. 1) (LString ''SiteChange'') (LFunction 3)
       (([], []), [])
     = Raise ''invalid event name to listen'' (([], []), [])
   \<and> Events_on AppEvents_eventType trace_hooks (\<lambda>reg. 1) (LString ''sitechange'') (LInteger 3)
       (([], []), [])
     = Raise ''second argument must be a function'' (([], []), [])"
proof -
  have t: "AppEvents_eventType ''sitechange'' = 0" "AppEvents_eventType ''SiteChange'' = - 1"
    by (simp_all add: AppEvents_eventType_def SiteChange_def Unknown_def)
  have a: "Events_add trace_hooks 0 1 ([], []) = Inr ([[1]], [AddFirst 0])"
    by (simp add: Events_add_def resize_def INT_MAX_def)
  from on_checks_then_registers[of "LString ''sitechange''" "''sitechange''" AppEvents_eventType
         trace_hooks "\<lambda>reg. 1" "LFunction 3" "(([], []), [])" "[]" "[]" "[]" "[[1]]" "[AddFirst 0]"]
       on_checks_then_registers[of "LString ''SiteChange''" "''SiteChange''" AppEvents_eventType
         trace_hooks "\<lambda>reg. 1" "LFunction 3" "(([], []), [])" "[]" "[]" "[]" "[[1]]" "[AddFirst 0]"]
       on_checks_then_registers[of "LString ''sitechange''" "''sitechange''" AppEvents_eventType
         trace_hooks "\<lambda>reg. 1" "LInteger 3" "(([], []), [])" "[]" "[]" "[]" "[[1]]" "[AddFirst 0]"]
  show ?thesis by (simp add: t a)
qed

lemma find_by_function_found:
  "find_by_function reg x m = r \<Longrightarrow> r \<noteq> LUA_REFNIL \<Longrightarrow>
     Events_hasListener m r \<and> (\<exists>k. (k, x) \<in> set reg \<and> to_int k = r)"
  by (induction reg) (auto simp: Let_def split: if_splits)

lemma find_by_function_none:
  "lua_isfunction x \<Longrightarrow> \<forall>(k, v) \<in> set reg. v = x \<longrightarrow> \<not> Events_hasListener m (to_int k) \<Longrightarrow>
     find_by_function reg x m = LUA_REFNIL"
  by (induction reg) (auto simp: Let_def)

lemma find_by_function_some:
  "lua_isfunction x \<Longrightarrow> (k, x) \<in> set reg \<Longrightarrow> Events_hasListener m (to_int k) \<Longrightarrow>
     Events_hasListener m (find_by_function reg x m)"
  by (induction reg) (auto simp: Let_def)

lemma map_of_unref: "0 \<le> r \<Longrightarrow> map_of (luaL_unref reg r) k = (if k = r then None else map_of reg k)"
  by (simp add: luaL_unref_def delete_conv')

lemma find_by_function_first:
  "lua_isfunction x \<Longrightarrow>
     find_by_function reg x m =
       (case List.find (\<lambda>(k, v). v = x \<and> Events_hasListener m (to_int k)) reg of
          None \<Rightarrow> LUA_REFNIL
        | Some (k, v) \<Rightarrow> to_int k)"
proof (induction reg)
  case Nil
  then show ?case by simp
next
  case (Cons e reg)
  obtain k v where e: "e = (k, v)" by (cases e)
  show ?case
  proof (cases "v = x \<and> Events_hasListener m (to_int k)")
    case True
    then show ?thesis using Cons.prems by (simp add: e Let_def)
  next
    case False
    then show ?thesis using Cons by (auto simp: e Let_def)
  qed
qed

lemma find_owned_exists:
  assumes "(k, x) \<in> set reg" "Events_hasListener m (to_int k)"
  shows "\<exists>k'. List.find (\<lambda>(k, v). v = x \<and> Events_hasListener m (to_int k)) reg = Some (k', x)
              \<and> Events_hasListener m (to_int k')"
proof -
  let ?P = "\<lambda>(k, v). v = x \<and> Events_hasListener m (to_int k)"
  have "List.find ?P reg \<noteq> None" using assms by (auto simp: find_None_iff)
  then obtain k' v' where f: "List.find ?P reg = Some (k', v')" by (cases "List.find ?P reg") auto
  then have "?P (k', v')" by (auto simp: find_Some_iff)
  with f show ?thesis by auto
qed

text \<open>
  Claim C8, as the code has it. \<open>off\<close> raises "first argument must be a function or a
  EventListener" for an argument that is neither an integer nor a function, changing
  nothing. An integer argument is stored in an \<^verbatim>\<open>int\<close>, which keeps its low 32 bits
  (\<open>to_int\<close>): when \<open>hasListener\<close> does not find that \<^verbatim>\<open>int\<close>, \<open>off\<close> returns without
  changing the table or the registry. For a function argument the scan goes through
  the registry in its order and stops at the first entry that holds the function under
  a reference of this table; when there is no such entry, \<open>off\<close> changes nothing, and
  when there is one, the scan finds the first. For the reference \<open>r\<close> so determined,
  the converted integer or the reference the scan found, \<open>off\<close> removes \<open>r\<close> from every
  list and then releases \<open>r\<close> from the registry (provided the hooks that \<open>remove\<close> may
  call return; \<^verbatim>\<open>LUA_REFNIL\<close>, the reference of \<open>nil\<close>, is never removed).
\<close>

theorem off_checks_then_removes:
  "(\<not> lua_isinteger arg2 \<and> \<not> lua_isfunction arg2 \<longrightarrow>
      Events_off hk arg2 st = Raise ''first argument must be a function or a EventListener'' st)
   \<and> (arg2 = LInteger h \<and> \<not> Events_hasListener m (to_int h) \<longrightarrow>
      Events_off hk arg2 ((m, w), reg) = Return [] ((m, w), reg))
   \<and> (lua_isfunction arg2
       \<and> (\<forall>(k, v) \<in> set reg. v = arg2 \<longrightarrow> \<not> Events_hasListener m (to_int k)) \<longrightarrow>
      Events_off hk arg2 ((m, w), reg) = Return [] ((m, w), reg))
   \<and> ((arg2 = LInteger h \<and> r = to_int h \<and> Events_hasListener m r
        \<or> lua_isfunction arg2 \<and> r = find_by_function reg arg2 m)
       \<and> r \<noteq> LUA_REFNIL
       \<and> Events_remove hk r (m, w) = Inr (m', w') \<longrightarrow>
      Events_off hk arg2 ((m, w), reg) = Return [] ((m', w'), luaL_unref reg r)
      \<and> Events_hasListener m r
      \<and> m' = map (removeAll r) m
      \<and> \<not> Events_hasListener m' r
      \<and> (0 \<le> r \<longrightarrow> (\<forall>k. map_of (luaL_unref reg r) k = (if k = r then None else map_of reg k))))
   \<and> (lua_isfunction arg2 \<longrightarrow>
      find_by_function reg arg2 m =
        (case List.find (\<lambda>(k, v). v = arg2 \<and> Events_hasListener m (to_int k)) reg of
           None \<Rightarrow> LUA_REFNIL
         | Some (k, v) \<Rightarrow> to_int k))
   \<and> (lua_isfunction arg2 \<and> (k0, arg2) \<in> set reg \<and> Events_hasListener m (to_int k0) \<longrightarrow>
      (\<exists>k'. List.find (\<lambda>(k, v). v = arg2 \<and> Events_hasListener m (to_int k)) reg = Some (k', arg2)
         \<and> find_by_function reg arg2 m = to_int k'
         \<and> Events_hasListener m (to_int k')
         \<and> (to_int k' \<noteq> LUA_REFNIL \<and> Events_remove hk (to_int k') (m, w) = Inr (m', w') \<longrightarrow>
              Events_off hk arg2 ((m, w), reg) = Return [] ((m', w'), luaL_unref reg (to_int k'))
              \<and> m' = map (removeAll (to_int k')) m)))"
proof (intro conjI impI)
  assume "\<not> lua_isinteger arg2 \<and> \<not> lua_isfunction arg2"
  then show "Events_off hk arg2 st = Raise ''first argument must be a function or a EventListener'' st"
    by (cases st) (simp add: Events_off_def)
next
  assume "arg2 = LInteger h \<and> \<not> Events_hasListener m (to_int h)"
  then show "Events_off hk arg2 ((m, w), reg) = Return [] ((m, w), reg)"
    by (simp add: Events_off_def)
next
  assume a: "lua_isfunction arg2
       \<and> (\<forall>(k, v) \<in> set reg. v = arg2 \<longrightarrow> \<not> Events_hasListener m (to_int k))"
  then have "find_by_function reg arg2 m = LUA_REFNIL"
    using find_by_function_none[of arg2 reg m] by blast
  moreover have "\<not> lua_isinteger arg2" using a by (cases arg2) auto
  ultimately show "Events_off hk arg2 ((m, w), reg) = Return [] ((m, w), reg)"
    using a by (simp add: Events_off_def)
next
  assume a: "(arg2 = LInteger h \<and> r = to_int h \<and> Events_hasListener m r
        \<or> lua_isfunction arg2 \<and> r = find_by_function reg arg2 m)
       \<and> r \<noteq> LUA_REFNIL
       \<and> Events_remove hk r (m, w) = Inr (m', w')"
  then have nil: "r \<noteq> LUA_REFNIL" and rm: "Events_remove hk r (m, w) = Inr (m', w')" by auto
  show has: "Events_hasListener m r"
    using a find_by_function_found[of reg arg2 m r] by auto
  have sel: "(if lua_isinteger arg2 then Some (to_int (lua_tointeger arg2))
               else if lua_isfunction arg2 then Some (find_by_function reg arg2 m)
               else None) = Some r"
    using a by (cases arg2) auto
  show "Events_off hk arg2 ((m, w), reg) = Return [] ((m', w'), luaL_unref reg r)"
    using nil rm has by (simp only: Events_off_def prod.case fst_conv sel option.case) simp
  show t: "m' = map (removeAll r) m" using Events_remove_table[OF rm] .
  show "\<not> Events_hasListener m' r" unfolding t by (simp add: hasListener_iff)
  assume "0 \<le> r"
  then show "\<forall>k. map_of (luaL_unref reg r) k = (if k = r then None else map_of reg k)"
    by (simp add: map_of_unref)
next
  assume "lua_isfunction arg2"
  then show "find_by_function reg arg2 m =
        (case List.find (\<lambda>(k, v). v = arg2 \<and> Events_hasListener m (to_int k)) reg of
           None \<Rightarrow> LUA_REFNIL
         | Some (k, v) \<Rightarrow> to_int k)"
    by (rule find_by_function_first)
next
  assume a: "lua_isfunction arg2 \<and> (k0, arg2) \<in> set reg \<and> Events_hasListener m (to_int k0)"
  then have f: "lua_isfunction arg2" by simp
  from a find_owned_exists[of k0 arg2 reg m] obtain k' where
    k: "List.find (\<lambda>(k, v). v = arg2 \<and> Events_hasListener m (to_int k)) reg = Some (k', arg2)"
    and h: "Events_hasListener m (to_int k')" by blast
  have r: "find_by_function reg arg2 m = to_int k'"
    using find_by_function_first[OF f, of reg m] k by simp
  have ni: "\<not> lua_isinteger arg2" using f by (cases arg2) auto
  have "Events_off hk arg2 ((m, w), reg) = Return [] ((m', w'), luaL_unref reg (to_int k'))
          \<and> m' = map (removeAll (to_int k')) m"
    if "to_int k' \<noteq> LUA_REFNIL" "Events_remove hk (to_int k') (m, w) = Inr (m', w')"
    using that f ni r h Events_remove_table[OF that(2)] by (simp add: Events_off_def)
  with k r h show "\<exists>k'. List.find (\<lambda>(k, v). v = arg2 \<and> Events_hasListener m (to_int k)) reg = Some (k', arg2)
         \<and> find_by_function reg arg2 m = to_int k'
         \<and> Events_hasListener m (to_int k')
         \<and> (to_int k' \<noteq> LUA_REFNIL \<and> Events_remove hk (to_int k') (m, w) = Inr (m', w') \<longrightarrow>
              Events_off hk arg2 ((m, w), reg) = Return [] ((m', w'), luaL_unref reg (to_int k'))
              \<and> m' = map (removeAll (to_int k')) m)"
    by blast
qed

theorem off_checks_then_removes_witness:
  "Events_off trace_hooks (LString ''x'') (([[5]], []), [(5, LFunction 3)])
     = Raise ''first argument must be a function or a EventListener'' (([[5]], []), [(5, LFunction 3)])
   \<and> Events_off trace_hooks (LInteger 6) (([[5]], []), [(6, LFunction 4), (5, LFunction 3)])
     = Return [] (([[5]], []), [(6, LFunction 4), (5, LFunction 3)])
   \<and> Events_off trace_hooks (LFunction 4) (([[5]], []), [(6, LFunction 4), (5, LFunction 3)])
     = Return [] (([[5]], []), [(6, LFunction 4), (5, LFunction 3)])
   \<and> Events_off trace_hooks (LInteger 5) (([[5]], []), [(6, LFunction 4), (5, LFunction 3)])
     = Return [] (([[]], [RemoveLast 0]), [(6, LFunction 4)])
   \<and> find_by_function [(6, LFunction 4), (5, LFunction 3)] (LFunction 3) [[5]] = 5
   \<and> Events_off trace_hooks (LFunction 3) (([[5]], []), [(6, LFunction 4), (5, LFunction 3)])
     = Return [] (([[]], [RemoveLast 0]), [(6, LFunction 4)])"
proof -
  let ?reg = "[(6, LFunction 4), (5::int, LFunction 3)]"
  have i: "to_int 5 = 5" "to_int 6 = 6" by (simp_all add: to_int_def)
  have r: "Events_remove trace_hooks 5 ([[5]], []) = Inr ([[]], [RemoveLast 0])"
    by (simp add: Events_remove_def remove_loop.simps)
  have u: "luaL_unref ?reg 5 = [(6, LFunction 4)]"
    by (simp add: luaL_unref_def)
  from off_checks_then_removes[of "LString ''x''" trace_hooks "(([[5]], []), [(5, LFunction 3)])"
         0 "[]" "[]" "[]" 0 "[]" "[]" 0]
  have 1: "Events_off trace_hooks (LString ''x'') (([[5]], []), [(5, LFunction 3)])
     = Raise ''first argument must be a function or a EventListener'' (([[5]], []), [(5, LFunction 3)])"
    by simp
  from off_checks_then_removes[of "LInteger 6" trace_hooks "(([[5]], []), [(5, LFunction 3)])"
         6 "[[5]]" "[]" ?reg 0 "[]" "[]" 0]
  have 2: "Events_off trace_hooks (LInteger 6) (([[5]], []), ?reg) = Return [] (([[5]], []), ?reg)"
    by (simp add: i)
  from off_checks_then_removes[of "LFunction 4" trace_hooks "(([[5]], []), [(5, LFunction 3)])"
         6 "[[5]]" "[]" ?reg 0 "[]" "[]" 0]
  have 3: "Events_off trace_hooks (LFunction 4) (([[5]], []), ?reg) = Return [] (([[5]], []), ?reg)"
    by (simp add: i)
  from off_checks_then_removes[of "LInteger 5" trace_hooks "(([[5]], []), [(5, LFunction 3)])"
         5 "[[5]]" "[]" ?reg 5 "[[]]" "[RemoveLast 0]" 0]
  have 4: "Events_off trace_hooks (LInteger 5) (([[5]], []), ?reg)
     = Return [] (([[]], [RemoveLast 0]), [(6, LFunction 4)])"
    by (simp add: i r u LUA_REFNIL_def)
  from off_checks_then_removes[of "LFunction 3" trace_hooks "(([[5]], []), [(5, LFunction 3)])"
         5 "[[5]]" "[]" ?reg 5 "[[]]" "[RemoveLast 0]" 5]
  have 5: "find_by_function ?reg (LFunction 3) [[5]] = 5
     \<and> Events_off trace_hooks (LFunction 3) (([[5]], []), ?reg)
     = Return [] (([[]], [RemoveLast 0]), [(6, LFunction 4)])"
    by (simp add: i r u LUA_REFNIL_def)
  from 1 2 3 4 5 show ?thesis by simp
qed

text \<open>
  Claim C8 as stated fails for an integer outside the range of \<^verbatim>\<open>int\<close>: 4294967301 is
  no listener of the table \<open>[[5]]\<close>, yet \<open>off(4294967301)\<close> is not a no-op: the value
  wraps to 5, and listener 5 is removed and released.
\<close>

theorem off_wide_integer_counterexample:
  "\<not> Events_hasListener [[5]] 4294967301
   \<and> Events_off trace_hooks (LInteger 4294967301) (([[5]], []), [(5, LFunction 3)])
       = Return [] (([[]], [RemoveLast 0]), [])"
  by (simp add: Events_off_def to_int_def LUA_REFNIL_def Events_remove_def remove_loop.simps
      luaL_unref_def)

lemma decimal_hd: "\<exists>d rest. decimal n = d # rest \<and> d \<in> set ''0123456789''"
proof (induction n rule: decimal.induct)
  case (1 n)
  show ?case
  proof (cases "n < 10")
    case True
    then have "digit_char n \<in> set ''0123456789''"
      unfolding digit_char_def by (intro nth_mem) simp
    then show ?thesis using True by (subst decimal.simps) simp
  next
    case False
    with 1 obtain d rest where "decimal (n div 10) = d # rest" "d \<in> set ''0123456789''" by blast
    then show ?thesis using False by (subst decimal.simps) simp
  qed
qed

lemma integer_text_hd: "\<exists>d rest. integer_text i = d # rest \<and> d \<in> set ''-0123456789''"
  using decimal_hd[of "nat i"] decimal_hd[of "nat (- i)"] by (auto simp: integer_text_def)

lemma integer_text_unrecognized:
  "AppEvents_eventType (integer_text i) = Unknown" "SpriteEvents_eventType (integer_text i) = Unknown"
proof -
  from integer_text_hd[of i] obtain d rest where
    t: "integer_text i = d # rest" and d: "d \<in> set ''-0123456789''" by blast
  from d show "AppEvents_eventType (integer_text i) = Unknown"
    unfolding t by (auto simp: AppEvents_eventType_def)
  from d show "SpriteEvents_eventType (integer_text i) = Unknown"
    unfolding t by (auto simp: SpriteEvents_eventType_def)
qed

text \<open>
  Claim C10, as the code has it. \<^verbatim>\<open>lua_tostring\<close> gives \<^verbatim>\<open>NULL\<close> only for a value that is
  neither a string nor a number: for such an event-name argument \<open>on\<close> returns no value,
  raises nothing and changes nothing. An integer is converted to its decimal text,
  which no event source recognizes, so \<open>on\<close> raises "invalid event name to listen" for
  it, as for an unrecognized string.
\<close>

theorem on_without_event_name:
  "(\<not> lua_isstring arg2 \<longrightarrow> Events_on eventType hk alloc arg2 arg3 st = Return [] st)
   \<and> Events_on AppEvents_eventType hk alloc (LInteger i) arg3 st
       = Raise ''invalid event name to listen'' st
   \<and> Events_on SpriteEvents_eventType hk alloc (LInteger i) arg3 st
       = Raise ''invalid event name to listen'' st"
proof (intro conjI impI)
  assume "\<not> lua_isstring arg2"
  then show "Events_on eventType hk alloc arg2 arg3 st = Return [] st"
    by (cases arg2; cases st) (simp_all add: Events_on_def)
qed (cases st; simp add: Events_on_def integer_text_unrecognized Unknown_def)+

theorem on_without_event_name_witness:
  "\<not> lua_isstring (LTable 0)
   \<and> Events_on SpriteEvents_eventType trace_hooks (\<lambda>reg. 1) (LTable 0) (LFunction 3) (([], []), [])
       = Return [] (([], []), [])
   \<and> Events_on SpriteEvents_eventType trace_hooks (\<lambda>reg. 1) LNil (LFunction 3) (([], []), [])
       = Return [] (([], []), [])"
  using on_without_event_name[of "LTable 0" SpriteEvents_eventType trace_hooks "\<lambda>reg. 1"
          "LFunction 3" "(([], []), [])" 0]
        on_without_event_name[of LNil SpriteEvents_eventType trace_hooks "\<lambda>reg. 1"
          "LFunction 3" "(([], []), [])" 0]
  by simp

text \<open>
  Claim C10 as stated fails for an event-name argument that is a number: it is not a
  string, and \<open>on\<close> raises the script error.
\<close>

theorem on_number_counterexample:
  "Events_on AppEvents_eventType trace_hooks (\<lambda>reg. 1) (LInteger 42) (LFunction 0) (([], []), [])
     = Raise ''invalid event name to listen'' (([], []), [])
   \<and> lua_tostring (LInteger 42) = Some ''42''"
  by (simp add: Events_on_def AppEvents_eventType_def Unknown_def integer_text_def
      decimal.simps digit_char_def)

section \<open>Properties of the dispatch\<close>

lemma call_loop_closed:
  assumes "list_all (\<lambda>c. actions (invoke c) = []) ls"
  shows "call_loop hk invoke e ls (s, lg) =
           Inr (s, \<lparr> invoked = invoked lg @ reached invoke ls,
                     console = console lg
                       @ concat (map (\<lambda>c. printed (outcome (invoke c))) (reached invoke ls)) \<rparr>)"
  using assms
proof (induction ls arbitrary: lg)
  case Nil
  then show ?case by simp
next
  case (Cons c rest)
  then have a: "actions (invoke c) = []" and r: "list_all (\<lambda>c. actions (invoke c) = []) rest"
    by simp_all
  note IH = Cons.IH[OF r]
  show ?case
  proof (cases "outcome (invoke c)")
    case Returned
    then show ?thesis by (simp add: a IH)
  next
    case (Failed v)
    then show ?thesis by (cases "lua_tostring v") (simp_all add: a IH consolePrint_def)
  next
    case (Thrown what)
    then show ?thesis by (simp add: a consolePrint_def)
  qed
qed

lemma reached_all:
  "\<not> list_ex (\<lambda>c. throws (outcome (invoke c))) ls \<Longrightarrow> reached invoke ls = ls"
proof (induction ls)
  case Nil
  then show ?case by simp
next
  case (Cons c rest)
  then show ?case by (cases "outcome (invoke c)") simp_all
qed

text \<open>
  Claim C2, as the code has it, for callbacks that do not add or remove listeners of
  this table while the dispatch runs. \<open>call\<close> calls the references of the event type in
  registration order, up to and including the first whose call lets a
  \<^verbatim>\<open>std::exception\<close> reach the \<^verbatim>\<open>catch\<close> clause; if there is none, it calls all of them.
  For a callback that fails with a Lua error it prints the error value when
  \<^verbatim>\<open>lua_tostring\<close> converts it (a string or a number) and prints nothing otherwise, and it
  goes on with the next callback in both cases. For an exception it prints \<^verbatim>\<open>what()\<close>
  and ends the pass. The listener table and the state of the hooks are as before, and
  \<open>call\<close> returns normally: no error reaches the notification source.
\<close>

theorem dispatch_in_order_with_isolation:
  assumes "list_all (\<lambda>c. actions (invoke c) = []) (listeners_of m e)"
  shows "Events_call hk invoke e ((m, w), lg) =
           Inr ((m, w),
                \<lparr> invoked = invoked lg @ reached invoke (listeners_of m e),
                  console = console lg
                    @ concat (map (\<lambda>c. printed (outcome (invoke c)))
                                  (reached invoke (listeners_of m e))) \<rparr>)
         \<and> (\<not> list_ex (\<lambda>c. throws (outcome (invoke c))) (listeners_of m e)
              \<longrightarrow> reached invoke (listeners_of m e) = listeners_of m e)"
proof (intro conjI impI)
  show "Events_call hk invoke e ((m, w), lg) =
           Inr ((m, w),
                \<lparr> invoked = invoked lg @ reached invoke (listeners_of m e),
                  console = console lg
                    @ concat (map (\<lambda>c. printed (outcome (invoke c)))
                                  (reached invoke (listeners_of m e))) \<rparr>)"
  proof (cases "e < 0 \<or> nat e \<ge> length m")
    case True
    then have "listeners_of m e = []" by (auto simp: listeners_of_def)
    then show ?thesis using True by (simp add: Events_call_def)
  next
    case False
    then have l: "listeners_of m e = m ! nat e" by (simp add: listeners_of_def)
    show ?thesis using False call_loop_closed[OF assms, of hk e "(m, w)" lg]
      by (simp add: Events_call_def l)
  qed
next
  assume "\<not> list_ex (\<lambda>c. throws (outcome (invoke c))) (listeners_of m e)"
  then show "reached invoke (listeners_of m e) = listeners_of m e" by (rule reached_all)
qed

theorem dispatch_in_order_with_isolation_witness:
  "list_all
     (\<lambda>c. actions (\<lparr> actions = [],
                       outcome = (if c = (1::int) then Failed (LString ''attempt to call a nil value'')
                                  else if c = 2 then Failed (LTable 0) else Returned) \<rparr>) = [])
     (listeners_of [[1, 2, 3]] 0)
   \<and> Events_call trace_hooks
        (\<lambda>c. \<lparr> actions = [],
                outcome = (if c = 1 then Failed (LString ''attempt to call a nil value'')
                           else if c = 2 then Failed (LTable 0) else Returned) \<rparr>)
        0 (([[1, 2, 3]], []), \<lparr> invoked = [], console = [] \<rparr>)
      = Inr (([[1, 2, 3]], []),
             \<lparr> invoked = [1, 2, 3], console = [''attempt to call a nil value''] \<rparr>)"
proof -
  let ?invoke = "\<lambda>c::int. \<lparr> actions = [],
                outcome = (if c = 1 then Failed (LString ''attempt to call a nil value'')
                           else if c = 2 then Failed (LTable 0) else Returned) \<rparr>"
  have h: "list_all (\<lambda>c. actions (?invoke c) = []) (listeners_of [[1, 2, 3]] 0)"
    by (simp add: listeners_of_def)
  have l: "listeners_of [[1, 2, 3]] 0 = [1, 2, 3]" by (simp add: listeners_of_def)
  from dispatch_in_order_with_isolation[OF h, of trace_hooks "[]" "\<lparr> invoked = [], console = [] \<rparr>"]
  have "Events_call trace_hooks ?invoke 0 (([[1, 2, 3]], []), \<lparr> invoked = [], console = [] \<rparr>)
      = Inr (([[1, 2, 3]], []),
             \<lparr> invoked = [1, 2, 3], console = [''attempt to call a nil value''] \<rparr>)"
    by (simp add: l c_str_def)
  with h show ?thesis by simp
qed

text \<open>
  Claim C2 as stated fails in two ways. A callback that fails with an error value that
  is not a string or a number (\<^verbatim>\<open>error({})\<close>) has nothing printed to the console. A
  callback whose call ends in an exception keeps the listeners after it from running in
  this pass.
\<close>

theorem dispatch_failure_counterexample:
  "Events_call trace_hooks
     (\<lambda>c. \<lparr> actions = [], outcome = (if c = 1 then Failed (LTable 0) else Returned) \<rparr>)
     0 (([[1, 2]], []), \<lparr> invoked = [], console = [] \<rparr>)
     = Inr (([[1, 2]], []), \<lparr> invoked = [1, 2], console = [] \<rparr>)
   \<and> Events_call trace_hooks
     (\<lambda>c. \<lparr> actions = [], outcome = (if c = 1 then Thrown ''boom'' else Returned) \<rparr>)
     0 (([[1, 2]], []), \<lparr> invoked = [], console = [] \<rparr>)
     = Inr (([[1, 2]], []), \<lparr> invoked = [1], console = [''boom''] \<rparr>)"
  by (simp add: Events_call_def consolePrint_def c_str_def)

text \<open>
  Claim C5. The loop of \<open>call\<close> is a range-based \<^verbatim>\<open>for\<close> over the vector itself, with no
  copy and no index re-check. A callback that removes a listener of the event being
  dispatched (its own or another one), or adds one, invalidates the iterators the loop
  goes on to use: the behaviour of the dispatch is undefined, not an uncorrupted pass.
\<close>

theorem dispatch_with_mutating_callback_is_undefined:
  "Events_call trace_hooks
     (\<lambda>c. \<lparr> actions = (if c = 1 then [Remove 1] else []), outcome = Returned \<rparr>)
     0 (([[1, 2, 3]], []), \<lparr> invoked = [], console = [] \<rparr>)
     = Inl InvalidIterator
   \<and> Events_call trace_hooks
     (\<lambda>c. \<lparr> actions = (if c = 1 then [Remove 2] else []), outcome = Returned \<rparr>)
     0 (([[1, 2]], []), \<lparr> invoked = [], console = [] \<rparr>)
     = Inl InvalidIterator
   \<and> Events_call trace_hooks
     (\<lambda>c. \<lparr> actions = (if c = 1 then [Remove 1] else []), outcome = Returned \<rparr>)
     0 (([[1, 2]], []), \<lparr> invoked = [], console = [] \<rparr>)
     = Inl InvalidIterator
   \<and> Events_call trace_hooks
     (\<lambda>c. \<lparr> actions = (if c = 1 then [Add 0 3] else []), outcome = Returned \<rparr>)
     0 (([[1, 2]], []), \<lparr> invoked = [], console = [] \<rparr>)
     = Inl InvalidIterator"
  by (simp add: Events_call_def Events_remove_def remove_loop.simps Events_add_def
      listeners_of_def)

section \<open>Properties of SpriteEvents and its registry\<close>

lemma SpriteEvents_destroy_eq:
  "SpriteEvents_destroy (this, objs) =
     Inr (case objs (m_spriteId this) of
            None \<Rightarrow> objs
          | Some d \<Rightarrow> objs(m_spriteId this \<mapsto> after_destroy this d))"
  by (auto simp: SpriteEvents_destroy_def doc_def disconnectFromUndoHistory_def on_doc_def
      after_destroy_def split: option.splits)

lemma after_destroy_props:
  "m_spriteId this \<notin> set (observers (after_destroy this d))"
  "m_observingUndo this \<Longrightarrow> m_spriteId this \<notin> set (undo_observers (after_destroy this d))"
  "received (after_destroy this d) =
     received d @ (if m_observingUndo this then [UndoRemoveObserver (m_spriteId this)] else [])
       @ [RemoveObserver (m_spriteId this)]"
  "set (observers (after_destroy this d)) \<subseteq> set (observers d)"
  "set (undo_observers (after_destroy this d)) \<subseteq> set (undo_observers d)"
  by (auto simp: after_destroy_def remove_observer_def undo_remove_observer_def)

lemma onCloseDocument_eq:
  assumes "map_of (g_spriteEvents g) k = Some (m, this)" "m_spriteId this = k"
  shows "onCloseDocument this g =
           Inr (g\<lparr>g_spriteEvents := AList.delete k (g_spriteEvents g),
                  objects := (case objects g k of
                                None \<Rightarrow> objects g
                              | Some d \<Rightarrow> (objects g)(k \<mapsto> after_destroy this d))\<rparr>)"
  using assms by (auto simp: onCloseDocument_def SpriteEvents_destroy_eq split: option.splits)

lemma detached_destroy:
  "SpriteEvents_destroy (this, objs) = Inr objs' \<Longrightarrow> detached this objs'"
  by (auto simp: SpriteEvents_destroy_eq detached_def after_destroy_props split: option.splits)

lemma detached_preserved:
  "SpriteEvents_destroy (other, objs) = Inr objs' \<Longrightarrow> detached this objs \<Longrightarrow> detached this objs'"
proof -
  assume d: "SpriteEvents_destroy (other, objs) = Inr objs'" and g: "detached this objs"
  show ?thesis
  proof (cases "objs (m_spriteId other)")
    case None
    with d have "objs' = objs" by (simp add: SpriteEvents_destroy_eq)
    with g show ?thesis by simp
  next
    case (Some d0)
    with d have o: "objs' = objs(m_spriteId other \<mapsto> after_destroy other d0)"
      by (simp add: SpriteEvents_destroy_eq)
    show ?thesis
    proof (cases "m_spriteId this = m_spriteId other")
      case False
      with o g show ?thesis by (simp add: detached_def)
    next
      case True
      from g Some True have
        a: "m_spriteId this \<notin> set (observers d0)" and
        b: "m_observingUndo this \<longrightarrow> m_spriteId this \<notin> set (undo_observers d0)"
        by (simp_all add: detached_def)
      from a after_destroy_props(4)[of other d0]
      have a': "m_spriteId this \<notin> set (observers (after_destroy other d0))" by blast
      from b after_destroy_props(5)[of other d0]
      have b': "m_observingUndo this \<longrightarrow>
                  m_spriteId this \<notin> set (undo_observers (after_destroy other d0))" by blast
      from a' b' o True show ?thesis by (simp add: detached_def)
    qed
  qed
qed

lemma destroy_all_ok: "\<exists>objs'. destroy_all es objs = Inr objs'"
  by (induction es objs rule: destroy_all.induct) (auto simp: SpriteEvents_destroy_eq)

lemma destroy_all_preserves:
  "destroy_all es objs = Inr objs' \<Longrightarrow> detached this objs \<Longrightarrow> detached this objs'"
proof (induction es objs rule: destroy_all.induct)
  case (1 objs)
  then show ?case by simp
next
  case (2 k m entry rest objs)
  obtain o1 where d: "SpriteEvents_destroy (entry, objs) = Inr o1"
    by (simp add: SpriteEvents_destroy_eq)
  with 2 show ?case using detached_preserved[OF d] by simp
qed

lemma destroy_all_detached:
  "destroy_all es objs = Inr objs' \<Longrightarrow> (key, (m, this)) \<in> set es \<Longrightarrow> detached this objs'"
proof (induction es objs rule: destroy_all.induct)
  case (1 objs)
  then show ?case by simp
next
  case (2 k m' entry rest objs)
  obtain o1 where d: "SpriteEvents_destroy (entry, objs) = Inr o1"
    by (simp add: SpriteEvents_destroy_eq)
  from 2(2) d have r: "destroy_all rest o1 = Inr objs'" by simp
  from 2(3) consider "this = entry" | "(key, (m, this)) \<in> set rest" by auto
  then show ?case
  proof cases
    case 1
    then show ?thesis using detached_destroy[OF d] destroy_all_preserves[OF r] by simp
  next
    case 2
    then show ?thesis using "2.IH"[OF d r] by simp
  qed
qed

lemma run_slots_preserves:
  "run_slots slots g = Inr g' \<Longrightarrow> detached this (objects g) \<Longrightarrow> detached this (objects g')"
proof (induction slots g rule: run_slots.induct)
  case (1 g)
  then show ?case by simp
next
  case (2 rest g)
  obtain o1 where d: "destroy_all (g_spriteEvents g) (objects g) = Inr o1"
    using destroy_all_ok by blast
  let ?g1 = "g\<lparr>g_spriteEvents := [], objects := o1\<rparr>"
  have c: "g_spriteEvents_clear g = Inr ?g1" by (simp add: g_spriteEvents_clear_def d)
  with 2(2) have r: "run_slots rest ?g1 = Inr g'" by simp
  have "detached this (objects ?g1)" using destroy_all_preserves[OF d "2.prems"(2)] by simp
  from "2.IH"[OF c r this] show ?case .
qed

lemma run_slots_ok: "\<exists>g'. run_slots slots g = Inr g'"
proof (induction slots g rule: run_slots.induct)
  case (1 g)
  then show ?case by simp
next
  case (2 rest g)
  obtain o1 where d: "destroy_all (g_spriteEvents g) (objects g) = Inr o1"
    using destroy_all_ok by blast
  have c: "g_spriteEvents_clear g = Inr (g\<lparr>g_spriteEvents := [], objects := o1\<rparr>)"
    by (simp add: g_spriteEvents_clear_def d)
  with "2.IH"[OF c] show ?case by simp
qed

lemma run_slots_registry:
  "run_slots slots g = Inr g' \<Longrightarrow> slots \<noteq> [] \<or> g_spriteEvents g = [] \<Longrightarrow> g_spriteEvents g' = []"
proof (induction slots g rule: run_slots.induct)
  case (1 g)
  then show ?case by simp
next
  case (2 rest g)
  obtain o1 where d: "destroy_all (g_spriteEvents g) (objects g) = Inr o1"
    using destroy_all_ok by blast
  let ?g1 = "g\<lparr>g_spriteEvents := [], objects := o1\<rparr>"
  have c: "g_spriteEvents_clear g = Inr ?g1" by (simp add: g_spriteEvents_clear_def d)
  with 2(2) have r: "run_slots rest ?g1 = Inr g'" by simp
  from "2.IH"[OF c r] show ?case by simp
qed

lemma run_slots_detached:
  assumes "run_slots slots g = Inr g'" "slots \<noteq> []" "(key, (m, this)) \<in> set (g_spriteEvents g)"
  shows "detached this (objects g')"
proof -
  from assms(2) obtain rest where s: "slots = ClearSpriteEvents # rest"
    by (cases slots) (auto intro: exit_slot.exhaust)
  obtain o1 where d: "destroy_all (g_spriteEvents g) (objects g) = Inr o1"
    using destroy_all_ok by blast
  let ?g1 = "g\<lparr>g_spriteEvents := [], objects := o1\<rparr>"
  have c: "g_spriteEvents_clear g = Inr ?g1" by (simp add: g_spriteEvents_clear_def d)
  with assms(1) s have r: "run_slots rest ?g1 = Inr g'" by simp
  have "detached this (objects ?g1)" using destroy_all_detached[OF d assms(3)] by simp
  from run_slots_preserves[OF r this] show ?thesis .
qed

lemma exit_connected_initial: "exit_connected (initial objs)"
  by (simp add: exit_connected_def initial_def)

lemma update_nonempty: "AList.update k v al \<noteq> []"
  by (cases al) auto

lemma map_of_nonempty: "map_of al k = Some v \<Longrightarrow> al \<noteq> []"
  by auto

lemma exit_connected_step:
  assumes "app_step x g = Inr g'" "exit_connected g"
  shows "exit_connected g'"
proof (cases x)
  case (PushSpriteEvents k)
  with assms show ?thesis
    by (auto simp: push_sprite_events_def exit_connected_def Let_def
        split: if_splits option.splits sum.splits)
next
  case (CloseDocument k)
  with assms show ?thesis
    by (auto simp: onCloseDocument_def exit_connected_def SpriteEvents_destroy_eq
        split: option.splits sum.splits dest: map_of_nonempty)
next
  case (Listen k e c)
  with assms show ?thesis
    by (auto simp: on_instance_def exit_connected_def
        split: if_splits option.splits sum.splits dest: map_of_nonempty)
next
  case (Unlisten k c)
  with assms show ?thesis
    by (auto simp: on_instance_def exit_connected_def
        split: option.splits sum.splits dest: map_of_nonempty)
next
  case (Delete k)
  with assms show ?thesis by (auto simp: exit_connected_def)
qed

lemma exit_connected_run:
  "app_run ops g = Inr g' \<Longrightarrow> exit_connected g \<Longrightarrow> exit_connected g'"
proof (induction ops arbitrary: g)
  case Nil
  then show ?case by simp
next
  case (Cons x xs)
  then show ?case by (auto split: sum.splits dest: exit_connected_step)
qed

text \<open>
  Claim C6. When the instance registered under id \<open>k\<close> receives \<open>onCloseDocument\<close>, the
  call returns with the entry of \<open>k\<close> removed from the registry and every other entry as
  it was. The destructor of the entry has run: if the document still resolves, the
  instance is no longer among its observers, its undo history is unsubscribed first when
  the instance was subscribed (\<open>received\<close> shows \<open>UndoRemoveObserver\<close> before
  \<open>RemoveObserver\<close>); if the document does not resolve, no object is touched.
  In every state reached from an empty registry by requests for sprite events, close
  notifications, listener changes and objects going away, firing the exit signal
  returns with an empty registry, and every instance that was registered is detached
  from its document.
\<close>

theorem close_and_exit_empty_the_registry:
  "(map_of (g_spriteEvents g) k = Some (m, this) \<and> m_spriteId this = k \<longrightarrow>
      (\<exists>g'. onCloseDocument this g = Inr g'
         \<and> map_of (g_spriteEvents g') k = None
         \<and> (\<forall>j. j \<noteq> k \<longrightarrow> map_of (g_spriteEvents g') j = map_of (g_spriteEvents g) j)
         \<and> (objects g k = None \<longrightarrow> objects g' = objects g)
         \<and> (\<forall>d. objects g k = Some d \<longrightarrow>
              (\<exists>d'. objects g' = (objects g)(k \<mapsto> d')
                 \<and> k \<notin> set (observers d')
                 \<and> (m_observingUndo this \<longrightarrow> k \<notin> set (undo_observers d'))
                 \<and> received d' = received d
                      @ (if m_observingUndo this then [UndoRemoveObserver k] else [])
                      @ [RemoveObserver k]))))
   \<and> (app_run ops (initial objs) = Inr g0 \<longrightarrow>
      (\<exists>g'. App_Exit g0 = Inr g' \<and> g_spriteEvents g' = []
         \<and> (\<forall>key m this. (key, (m, this)) \<in> set (g_spriteEvents g0) \<longrightarrow> detached this (objects g'))))"
proof (intro conjI impI)
  assume a: "map_of (g_spriteEvents g) k = Some (m, this) \<and> m_spriteId this = k"
  then have e: "map_of (g_spriteEvents g) k = Some (m, this)" and i: "m_spriteId this = k"
    by simp_all
  let ?g' = "g\<lparr>g_spriteEvents := AList.delete k (g_spriteEvents g),
                  objects := (case objects g k of
                                None \<Rightarrow> objects g
                              | Some d \<Rightarrow> (objects g)(k \<mapsto> after_destroy this d))\<rparr>"
  have c: "onCloseDocument this g = Inr ?g'" using onCloseDocument_eq[OF e i] .
  have 1: "map_of (g_spriteEvents ?g') k = None" by (simp add: delete_conv')
  have 2: "\<forall>j. j \<noteq> k \<longrightarrow> map_of (g_spriteEvents ?g') j = map_of (g_spriteEvents g) j"
    by (simp add: delete_conv')
  have 3: "objects g k = None \<longrightarrow> objects ?g' = objects g" by simp
  have 4: "\<forall>d. objects g k = Some d \<longrightarrow>
              (\<exists>d'. objects ?g' = (objects g)(k \<mapsto> d')
                 \<and> k \<notin> set (observers d')
                 \<and> (m_observingUndo this \<longrightarrow> k \<notin> set (undo_observers d'))
                 \<and> received d' = received d
                      @ (if m_observingUndo this then [UndoRemoveObserver k] else [])
                      @ [RemoveObserver k])"
  proof (intro allI impI)
    fix d assume d: "objects g k = Some d"
    show "\<exists>d'. objects ?g' = (objects g)(k \<mapsto> d')
                 \<and> k \<notin> set (observers d')
                 \<and> (m_observingUndo this \<longrightarrow> k \<notin> set (undo_observers d'))
                 \<and> received d' = received d
                      @ (if m_observingUndo this then [UndoRemoveObserver k] else [])
                      @ [RemoveObserver k]"
      using d after_destroy_props(1,2,3)[of this d] i
      by (intro exI[of _ "after_destroy this d"]) simp
  qed
  from c 1 2 3 4 show "\<exists>g'. onCloseDocument this g = Inr g'
         \<and> map_of (g_spriteEvents g') k = None
         \<and> (\<forall>j. j \<noteq> k \<longrightarrow> map_of (g_spriteEvents g') j = map_of (g_spriteEvents g) j)
         \<and> (objects g k = None \<longrightarrow> objects g' = objects g)
         \<and> (\<forall>d. objects g k = Some d \<longrightarrow>
              (\<exists>d'. objects g' = (objects g)(k \<mapsto> d')
                 \<and> k \<notin> set (observers d')
                 \<and> (m_observingUndo this \<longrightarrow> k \<notin> set (undo_observers d'))
                 \<and> received d' = received d
                      @ (if m_observingUndo this then [UndoRemoveObserver k] else [])
                      @ [RemoveObserver k]))"
    by (intro exI[of _ ?g']) (simp only: simp_thms)
next
  assume r: "app_run ops (initial objs) = Inr g0"
  have inv: "exit_connected g0"
    using exit_connected_run[OF r exit_connected_initial] .
  obtain g' where x: "run_slots (Exit_slots g0) g0 = Inr g'" using run_slots_ok by blast
  have "Exit_slots g0 \<noteq> [] \<or> g_spriteEvents g0 = []" using inv by (auto simp: exit_connected_def)
  from run_slots_registry[OF x this] have e: "g_spriteEvents g' = []" .
  have "detached this (objects g')" if "(key, (m, this)) \<in> set (g_spriteEvents g0)" for key m this
  proof -
    from that have "g_spriteEvents g0 \<noteq> []" by auto
    with inv have "Exit_slots g0 \<noteq> []" by (auto simp: exit_connected_def)
    from run_slots_detached[OF x this that] show ?thesis .
  qed
  with x e show "\<exists>g'. App_Exit g0 = Inr g' \<and> g_spriteEvents g' = []
         \<and> (\<forall>key m this. (key, (m, this)) \<in> set (g_spriteEvents g0) \<longrightarrow> detached this (objects g'))"
    by (auto simp: App_Exit_def)
qed

theorem close_and_exit_empty_the_registry_witness:
  "\<exists>g0 g1 g2.
     app_run [PushSpriteEvents 1, PushSpriteEvents 2, Listen 1 0 7]
       (initial (Map.empty(1 \<mapsto> \<lparr> observers = [], undo_observers = [], received = [] \<rparr>,
                           2 \<mapsto> \<lparr> observers = [], undo_observers = [], received = [] \<rparr>)))
       = Inr g0
     \<and> map_of (g_spriteEvents g0) 1 = Some ([[7]], \<lparr> m_spriteId = 1, m_observingUndo = True \<rparr>)
     \<and> map fst (g_spriteEvents g0) = [1, 2]
     \<and> onCloseDocument \<lparr> m_spriteId = 1, m_observingUndo = True \<rparr> g0 = Inr g1
     \<and> map_of (g_spriteEvents g1) 1 = None
     \<and> App_Exit g0 = Inr g2
     \<and> g_spriteEvents g2 = []"
proof -
  let ?ops = "[PushSpriteEvents 1, PushSpriteEvents 2, Listen 1 0 7]"
  let ?objs = "Map.empty(1 \<mapsto> \<lparr> observers = [], undo_observers = [], received = [] \<rparr>,
                         2 \<mapsto> \<lparr> observers = [], undo_observers = [], received = [] \<rparr>)"
  let ?se = "\<lparr> m_spriteId = 1, m_observingUndo = True \<rparr>"
  have "\<exists>o1. app_run ?ops (initial ?objs)
        = Inr \<lparr> g_spriteEvents =
                  [(1, ([[7]], ?se)), (2, ([], \<lparr> m_spriteId = 2, m_observingUndo = False \<rparr>))],
                atExit = True, Exit_slots = [ClearSpriteEvents], objects = o1 \<rparr>"
    by (simp add: initial_def push_sprite_events_def SpriteEvents_new_def doc_def on_doc_def
        on_instance_def Events_add_def resize_def SpriteEvents_hooks_def
        SpriteEvents_onAddFirstListener_def Change_def Let_def INT_MAX_def)
  then obtain g0 where
    r: "app_run ?ops (initial ?objs) = Inr g0" and
    e: "g_spriteEvents g0 =
          [(1, ([[7]], ?se)), (2, ([], \<lparr> m_spriteId = 2, m_observingUndo = False \<rparr>))]"
    by force
  have h: "map_of (g_spriteEvents g0) 1 = Some ([[7]], ?se) \<and> m_spriteId ?se = 1"
    by (simp add: e)
  from close_and_exit_empty_the_registry[of g0 1 "[[7]]" ?se ?ops ?objs g0] h r
  obtain g1 g2 where
    "onCloseDocument ?se g0 = Inr g1" "map_of (g_spriteEvents g1) 1 = None"
    "App_Exit g0 = Inr g2" "g_spriteEvents g2 = []"
    by blast
  with r h e show ?thesis by (intro exI[of _ g0] exI[of _ g1] exI[of _ g2]) simp
qed

text \<open>
  Claim C4. With a document that no longer resolves, removing the last \<open>change\<close>
  listener of an instance that observes the undo history calls
  \<^verbatim>\<open>disconnectFromUndoHistory(doc())\<close> with a null pointer, which the function dereferences:
  \<open>remove\<close>, and \<open>off\<close> from a script, end in undefined behaviour, not in a silent
  no-op. The same holds for the first \<open>change\<close> listener added. The destructor tests
  \<^verbatim>\<open>if (doc)\<close> before the same call and does nothing. The last line reaches the state
  from the start: events pushed for sprite 1, a \<open>change\<close> listener added, the sprite
  no longer live, the listener removed.
\<close>

theorem stale_document_listener_removal_crashes:
  "Events_remove SpriteEvents_hooks 7
     ([[7]], (\<lparr> m_spriteId = 1, m_observingUndo = True \<rparr>, Map.empty))
     = Inl NullDereference
   \<and> Events_off SpriteEvents_hooks (LInteger 7)
       (([[7]], (\<lparr> m_spriteId = 1, m_observingUndo = True \<rparr>, Map.empty)), [(7, LFunction 0)])
     = Crash NullDereference
   \<and> Events_add SpriteEvents_hooks Change 7
       ([], (\<lparr> m_spriteId = 1, m_observingUndo = False \<rparr>, Map.empty))
     = Inl NullDereference
   \<and> SpriteEvents_destroy (\<lparr> m_spriteId = 1, m_observingUndo = True \<rparr>, Map.empty)
     = Inr Map.empty
   \<and> app_run [PushSpriteEvents 1, Listen 1 Change 7, Delete 1, Unlisten 1 7]
       (initial (Map.empty(1 \<mapsto> \<lparr> observers = [], undo_observers = [], received = [] \<rparr>)))
     = Inl NullDereference"
  by (simp add: Events_remove_def remove_loop.simps SpriteEvents_hooks_def
      SpriteEvents_onRemoveLastListener_def SpriteEvents_onAddFirstListener_def Change_def
      disconnectFromUndoHistory_def doc_def on_doc_def Events_off_def to_int_def LUA_REFNIL_def
      Events_add_def resize_def SpriteEvents_destroy_def initial_def push_sprite_events_def
      SpriteEvents_new_def on_instance_def Let_def INT_MAX_def)

end
